theory Spec2Isabelle
  imports Complex_Main "HOL-Library.Char_ord" "HOL-Library.List_Lexorder" "HOL-Library.Log_Nat"
begin

section \<open>Python primitives used by the schedulers\<close>

text \<open>
  Exceptions are values. \<open>IndexError\<close> is an out-of-range read of a list, an array or
  \<open>.iloc\<close>; \<open>UnpackError\<close> is the \<open>ValueError\<close> of a tuple assignment whose right-hand
  side has the wrong number of items; the two \<open>ValueError\<close>s raised explicitly by
  \<open>student_scheduler_ga.py\<close> keep their own constructors; the two exceptions of
  floating-point arithmetic are \<open>ArithmeticError\<close>s.
\<close>

datatype arithmetic_error = OverflowError | ZeroDivisionError

datatype 'c py_error =
    IndexError
  | UnpackError
  | NoRegistrationData
  | NoAvailableLectures 'c
  | ArithmeticError arithmetic_error

text \<open>Indexing a sequence with a Python integer: negative indices count from the end.\<close>

definition py_get :: "'a list \<Rightarrow> int \<Rightarrow> 'c py_error + 'a" where
  "py_get xs i =
     (if 0 \<le> i \<and> i < int (length xs) then Inr (xs ! nat i)
      else if i < 0 \<and> - int (length xs) \<le> i then Inr (xs ! nat (int (length xs) + i))
      else Inl IndexError)"

text \<open>
  A gene is a finite floating-point number, that is, a rational. \<open>int(x)\<close> truncates
  towards zero.
\<close>

definition py_int :: "rat \<Rightarrow> int" where
  "py_int x = (if 0 \<le> x then \<lfloor>x\<rfloor> else \<lceil>x\<rceil>)"

subsection \<open>Floating-point numbers\<close>

text \<open>
  A Python \<open>float\<close> is an IEEE 754 binary64 number: a finite one is a rational
  \<open>m * 2 ^ e\<close> with \<open>\<bar>m\<bar> < 2 ^ 53\<close> and \<open>- 1074 \<le> e \<le> 971\<close>, and every operation returns
  the representable number nearest to the exact result, the one with the even \<open>m\<close> when
  two are equally near, or an infinity when that number would exceed the largest finite
  one. The two zeros are not told apart.

  \<open>ilog2 x\<close> is the exponent \<open>k\<close> with \<open>2 ^ k \<le> x < 2 ^ (k + 1)\<close> of a positive \<open>x\<close>.
\<close>

definition ilog2 :: "rat \<Rightarrow> int" where
  "ilog2 x = (if 1 \<le> x then bitlen \<lfloor>x\<rfloor> - 1 else - bitlen (\<lceil>1 / x\<rceil> - 1))"

definition round_half_even :: "rat \<Rightarrow> int" where
  "round_half_even y =
     (let n = \<lfloor>y\<rfloor>; d = y - of_int n
      in if d < 1 / 2 then n else if 1 / 2 < d then n + 1 else if even n then n else n + 1)"

text \<open>
  Rounding to the grid of spacing \<open>2 ^ e\<close> around \<open>x\<close>: 53 significant bits, and the
  spacing \<open>2 ^ - 1074\<close> of the subnormal numbers below \<open>2 ^ - 1022\<close>.
\<close>

definition double_exponent :: "rat \<Rightarrow> int" where
  "double_exponent a = max (ilog2 a - 52) (- 1074)"

definition round_double :: "rat \<Rightarrow> rat" where
  "round_double x =
     (if x = 0 then 0
      else let a = \<bar>x\<bar>;
               e = double_exponent a;
               r = of_int (round_half_even (a / 2 powi e)) * 2 powi e
           in if x < 0 then - r else r)"

definition double_max :: rat where
  "double_max = (2 ^ 53 - 1) * 2 ^ 971"

datatype py_float = Finite rat | PosInf | NegInf

definition to_float :: "rat \<Rightarrow> py_float" where
  "to_float x =
     (let r = round_double x
      in if double_max < r then PosInf else if r < - double_max then NegInf else Finite r)"

text \<open>
  An \<open>int\<close> operand of a float operation is converted first, correctly rounded, and the
  conversion raises \<open>OverflowError\<close> when the result is not finite.
\<close>

definition int_to_float :: "int \<Rightarrow> arithmetic_error + rat" where
  "int_to_float n =
     (case to_float (of_int n) of Finite r \<Rightarrow> Inr r | _ \<Rightarrow> Inl OverflowError)"

text \<open>The literal \<open>1e-9\<close> denotes the binary64 number nearest to \<open>1 / 10 ^ 9\<close>.\<close>

definition float_1e_9 :: rat where
  "float_1e_9 = 4835703278458517 / 2 ^ 82"

text \<open>
  The sum of two finite floats, and the quotient of a finite float by a float: division
  by zero raises, division by an infinity gives zero.
\<close>

definition float_add :: "rat \<Rightarrow> rat \<Rightarrow> py_float" where
  "float_add a b = to_float (a + b)"

definition float_div :: "rat \<Rightarrow> py_float \<Rightarrow> arithmetic_error + py_float" where
  "float_div a x =
     (case x of
        Finite b \<Rightarrow> if b = 0 then Inl ZeroDivisionError else Inr (to_float (a / b))
      | PosInf \<Rightarrow> Inr (Finite 0)
      | NegInf \<Rightarrow> Inr (Finite 0))"

text \<open>\<open>s.split(sep)\<close> for a one-character separator: every occurrence cuts.\<close>

fun split_from :: "char \<Rightarrow> string \<Rightarrow> string \<Rightarrow> string list" where
  "split_from sep cur [] = [cur]"
| "split_from sep cur (c # cs) =
     (if c = sep then cur # split_from sep [] cs else split_from sep (cur @ [c]) cs)"

definition str_split :: "string \<Rightarrow> char \<Rightarrow> string list" where
  "str_split s sep = split_from sep [] s"

text \<open>Decimal rendering of a non-negative integer, and the format \<open>{hour:02d}\<close>.\<close>

definition digit_char :: "nat \<Rightarrow> char" where
  "digit_char d = ''0123456789'' ! d"

fun str_nat :: "nat \<Rightarrow> string" where
  "str_nat n =
     (if n < 10 then [digit_char n] else str_nat (n div 10) @ [digit_char (n mod 10)])"

declare str_nat.simps [simp del]

definition format_02d :: "nat \<Rightarrow> string" where
  "format_02d n = (let s = str_nat n in replicate (2 - length s) (CHR ''0'') @ s)"

text \<open>A loop that appends one result per item and stops at the first exception.\<close>

fun for_each :: "('a \<Rightarrow> 'e + 'b) \<Rightarrow> 'a list \<Rightarrow> 'e + 'b list" where
  "for_each f [] = Inr []"
| "for_each f (x # xs) =
     (case f x of
        Inl e \<Rightarrow> Inl e
      | Inr y \<Rightarrow> (case for_each f xs of Inl e \<Rightarrow> Inl e | Inr ys \<Rightarrow> Inr (y # ys)))"


section \<open>Institution variant: \<open>genetic_algorithm_schedulerPYGAD.py\<close>\<close>

subsection \<open>Data\<close>

text \<open>
  The identifiers of courses, teachers and rooms are whatever the input tables hold; they
  are only compared for equality, so they are type parameters \<open>'c\<close>, \<open>'t\<close>, \<open>'r\<close>.
  A dictionary with string keys is a record. The input tables are lists of rows:
  \<open>courses\<close> has rows \<open>(course_id, lectures_per_week)\<close>, \<open>classrooms\<close> is its
  \<open>room_id\<close> column, \<open>teacher_courses\<close> has rows \<open>(teacher_id, course_id)\<close> and
  \<open>teacher_preferences\<close> has rows \<open>(teacher_id, day, preferred_start_time,
  preferred_end_time)\<close>.
\<close>

record ('c, 't) lecture_info =
  course_id :: 'c
  teacher_id :: 't

record ('c, 't, 'r) lecture = "('c, 't) lecture_info" +
  room_id :: 'r
  timeslot :: string

type_synonym 't pref_dict = "('t \<times> string) \<rightharpoonup> (string \<times> string) list"

record ('c, 't, 'r) data_preparer =
  classrooms :: "'r list"
  lectures_to_schedule :: "('c, 't) lecture_info list"
  timeslots :: "string list"
  teacher_pref_dict :: "'t pref_dict"

record gene_bounds =
  low :: int
  high :: int

subsection \<open>\<open>DataPreparer._prepare_data\<close>\<close>

text \<open>
  Lines 31 to 36: one row of \<open>teacher_courses\<close> at a time; the course's
  \<open>lectures_per_week\<close> is read from the first row of \<open>courses\<close> with that id
  (\<open>.iloc[0]\<close>, an \<open>IndexError\<close> when there is none), and \<open>range(num_lectures)\<close> is empty
  for a negative count.
\<close>

fun lectures_loop ::
  "('c \<times> int) list \<Rightarrow> ('c, 't) lecture_info list \<Rightarrow> ('t \<times> 'c) list
     \<Rightarrow> 'c py_error + ('c, 't) lecture_info list" where
  "lectures_loop courses acc [] = Inr acc"
| "lectures_loop courses acc (row # rows) =
     (let teacher = fst row; course = snd row in
      case py_get (map snd (filter (\<lambda>r. fst r = course) courses)) 0 of
        Inl e \<Rightarrow> Inl e
      | Inr num_lectures \<Rightarrow>
          lectures_loop courses
            (acc @ replicate (nat num_lectures) \<lparr>course_id = course, teacher_id = teacher\<rparr>)
            rows)"

text \<open>Lines 39 to 43: the timeslot strings, days outside, hours inside.\<close>

definition days :: "string list" where
  "days = [''Sunday'', ''Monday'', ''Tuesday'', ''Wednesday'', ''Thursday'']"

definition hours :: "nat list" where
  "hours = [8..<17]"

definition make_timeslot :: "string \<Rightarrow> nat \<Rightarrow> string" where
  "make_timeslot day hour = day @ ''_'' @ format_02d hour @ '':00''"

definition build_timeslots :: "string list" where
  "build_timeslots = concat (map (\<lambda>day. map (\<lambda>hour. make_timeslot day hour) hours) days)"

text \<open>Lines 46 to 50: the windows of each (teacher, day), in row order.\<close>

definition add_preference ::
  "'t \<times> string \<times> string \<times> string \<Rightarrow> 't pref_dict \<Rightarrow> 't pref_dict" where
  "add_preference row d =
     (case row of (teacher, day, start_time, end_time) \<Rightarrow>
        (case d (teacher, day) of
           None \<Rightarrow> d((teacher, day) \<mapsto> [(start_time, end_time)])
         | Some windows \<Rightarrow> d((teacher, day) \<mapsto> windows @ [(start_time, end_time)])))"

definition build_pref_dict :: "('t \<times> string \<times> string \<times> string) list \<Rightarrow> 't pref_dict" where
  "build_pref_dict rows = fold add_preference rows Map.empty"

definition prepare_data ::
  "('c \<times> int) list \<Rightarrow> 'r list \<Rightarrow> ('t \<times> 'c) list \<Rightarrow> ('t \<times> string \<times> string \<times> string) list
     \<Rightarrow> 'c py_error + ('c, 't, 'r) data_preparer" where
  "prepare_data courses rooms teacher_courses teacher_preferences =
     (case lectures_loop courses [] teacher_courses of
        Inl e \<Rightarrow> Inl e
      | Inr lectures \<Rightarrow>
          Inr \<lparr>classrooms = rooms,
               lectures_to_schedule = lectures,
               timeslots = build_timeslots,
               teacher_pref_dict = build_pref_dict teacher_preferences\<rparr>)"

subsection \<open>\<open>SchedulerGA\<close>: gene space and decoding\<close>

record ('c, 't, 'r) scheduler_ga =
  data_preparer :: "('c, 't, 'r) data_preparer"
  num_lectures :: nat
  num_genes :: nat
  gene_space :: "gene_bounds list"

definition build_gene_space :: "('c, 't, 'r) data_preparer \<Rightarrow> nat \<Rightarrow> gene_bounds list" where
  "build_gene_space dp n =
     concat (replicate n
       [\<lparr>low = 0, high = int (length (classrooms dp))\<rparr>,
        \<lparr>low = 0, high = int (length (timeslots dp))\<rparr>])"

definition scheduler_init :: "('c, 't, 'r) data_preparer \<Rightarrow> ('c, 't, 'r) scheduler_ga" where
  "scheduler_init dp =
     (let n = length (lectures_to_schedule dp) in
      \<lparr>data_preparer = dp,
       num_lectures = n,
       num_genes = n * 2,
       gene_space = build_gene_space dp n\<rparr>)"

text \<open>A chromosome respects a gene space: one gene per bound, each in \<open>[low, high)\<close>.\<close>

definition within_bounds :: "gene_bounds list \<Rightarrow> rat list \<Rightarrow> bool" where
  "within_bounds space solution =
     list_all2 (\<lambda>g b. of_int (low b) \<le> g \<and> g < of_int (high b)) solution space"

definition decode_lecture ::
  "('c, 't, 'r) scheduler_ga \<Rightarrow> rat list \<Rightarrow> nat \<Rightarrow> 'c py_error + ('c, 't, 'r) lecture" where
  "decode_lecture s solution i =
     (case py_get (lectures_to_schedule (data_preparer s)) (int i) of
        Inl e \<Rightarrow> Inl e
      | Inr lecture_info \<Rightarrow>
     (case py_get solution (int i * 2) of
        Inl e \<Rightarrow> Inl e
      | Inr room_gene \<Rightarrow>
     (case py_get solution (int i * 2 + 1) of
        Inl e \<Rightarrow> Inl e
      | Inr timeslot_gene \<Rightarrow>
     (case py_get (classrooms (data_preparer s)) (py_int room_gene) of
        Inl e \<Rightarrow> Inl e
      | Inr room \<Rightarrow>
     (case py_get (timeslots (data_preparer s)) (py_int timeslot_gene) of
        Inl e \<Rightarrow> Inl e
      | Inr slot \<Rightarrow>
          Inr \<lparr>course_id = course_id lecture_info,
               teacher_id = teacher_id lecture_info,
               room_id = room,
               timeslot = slot\<rparr>)))))"

definition decode_solution ::
  "('c, 't, 'r) scheduler_ga \<Rightarrow> rat list \<Rightarrow> 'c py_error + ('c, 't, 'r) lecture list" where
  "decode_solution s solution = for_each (decode_lecture s solution) [0..<num_lectures s]"

subsection \<open>\<open>SchedulerGA._calculate_penalty\<close>\<close>

text \<open>
  The state of the scan is the running penalty and the two booking dictionaries. The
  assignment \<open>teacher_id, day, time = lecture['teacher_id'], *lecture['timeslot'].split('_')\<close>
  needs the split to give exactly two parts.
\<close>

type_synonym ('t, 'r) penalty_state =
  "int \<times> (('t \<times> string) \<rightharpoonup> nat) \<times> (('r \<times> string) \<rightharpoonup> nat)"

definition penalty_step ::
  "'t pref_dict \<Rightarrow> ('t, 'r) penalty_state \<Rightarrow> ('c, 't, 'r) lecture
     \<Rightarrow> 'c py_error + ('t, 'r) penalty_state" where
  "penalty_step prefs st lecture =
     (case st of (penalty, teacher_bookings, room_bookings) \<Rightarrow>
      let teacher_key = (teacher_id lecture, timeslot lecture);
          (penalty, teacher_bookings) =
            (if teacher_bookings teacher_key \<noteq> None then (penalty + 1000, teacher_bookings)
             else (penalty, teacher_bookings(teacher_key \<mapsto> 1)));
          room_key = (room_id lecture, timeslot lecture);
          (penalty, room_bookings) =
            (if room_bookings room_key \<noteq> None then (penalty + 1000, room_bookings)
             else (penalty, room_bookings(room_key \<mapsto> 1)))
      in
      case str_split (timeslot lecture) (CHR ''_'') of
        [day, time] \<Rightarrow>
          (case prefs (teacher_id lecture, day) of
             Some windows \<Rightarrow>
               (let is_within_preference =
                      list_ex (\<lambda>(start_time, end_time). start_time \<le> time \<and> time < end_time)
                        windows
                in if \<not> is_within_preference
                   then Inr (penalty + 500, teacher_bookings, room_bookings)
                   else Inr (penalty, teacher_bookings, room_bookings))
           | None \<Rightarrow> Inr (penalty + 500, teacher_bookings, room_bookings))
      | _ \<Rightarrow> Inl UnpackError)"

fun penalty_loop ::
  "'t pref_dict \<Rightarrow> ('t, 'r) penalty_state \<Rightarrow> ('c, 't, 'r) lecture list
     \<Rightarrow> 'c py_error + ('t, 'r) penalty_state" where
  "penalty_loop prefs st [] = Inr st"
| "penalty_loop prefs st (lecture # rest) =
     (case penalty_step prefs st lecture of
        Inl e \<Rightarrow> Inl e
      | Inr st' \<Rightarrow> penalty_loop prefs st' rest)"

definition calculate_penalty ::
  "('c, 't, 'r) scheduler_ga \<Rightarrow> ('c, 't, 'r) lecture list \<Rightarrow> 'c py_error + int" where
  "calculate_penalty s schedule =
     (case penalty_loop (teacher_pref_dict (data_preparer s)) (0, Map.empty, Map.empty) schedule of
        Inl e \<Rightarrow> Inl e
      | Inr st \<Rightarrow> Inr (fst st))"

text \<open>
  The fitness is \<open>1.0 / (penalty + 1e-9)\<close> for the \<open>int\<close> \<open>penalty\<close>: the penalty is
  converted to a float, the literal is added, and one is divided by the sum, each step
  rounded.
\<close>

definition fitness_of_penalty :: "int \<Rightarrow> arithmetic_error + py_float" where
  "fitness_of_penalty penalty =
     (case int_to_float penalty of
        Inl e \<Rightarrow> Inl e
      | Inr p \<Rightarrow> float_div 1 (float_add p float_1e_9))"



section \<open>Student variant: \<open>student_scheduler_ga.py\<close>\<close>

subsection \<open>\<open>StudentData\<close>\<close>

text \<open>
  A row of the master schedule is a placed lecture with its \<open>Day\<close> column. The table
  \<open>registrations\<close> has rows \<open>(student_id, course_id)\<close>. \<open>lecture_groups\<close> is a
  \<open>defaultdict(list)\<close>: a total function whose default value is the empty list.
  The messages of \<open>logging.warning\<close> are returned beside the data, as the list of the
  courses they name.
\<close>

record ('c, 't, 'r) offering = "('c, 't, 'r) lecture" +
  Day :: string

record ('c, 't, 'r) student_data =
  student_courses :: "'c list"
  lecture_groups :: "'c \<Rightarrow> ('c, 't, 'r) offering list"

definition group_lecture ::
  "'c list \<Rightarrow> ('c, 't, 'r) offering \<Rightarrow> ('c \<Rightarrow> ('c, 't, 'r) offering list)
     \<Rightarrow> ('c \<Rightarrow> ('c, 't, 'r) offering list)" where
  "group_lecture courses lecture groups =
     (if course_id lecture \<in> set courses
      then groups(course_id lecture := groups (course_id lecture) @ [lecture])
      else groups)"

definition prepare_student_data ::
  "'s \<Rightarrow> ('c, 't, 'r) offering list \<Rightarrow> ('s \<times> 'c) list
     \<Rightarrow> 'c py_error + (('c, 't, 'r) student_data \<times> 'c list)" where
  "prepare_student_data student_id master_schedule registrations =
     (let student_regs = filter (\<lambda>r. fst r = student_id) registrations in
      if student_regs = [] then Inl NoRegistrationData
      else
        let courses = map snd student_regs;
            groups = fold (group_lecture courses) master_schedule (\<lambda>_. []);
            warnings = filter (\<lambda>course. groups course = []) courses
        in Inr (\<lparr>student_courses = courses, lecture_groups = groups\<rparr>, warnings))"

subsection \<open>\<open>StudentSchedulerGA\<close>\<close>

record ('c, 't, 'r) student_scheduler_ga =
  student_data :: "('c, 't, 'r) student_data"
  student_num_genes :: nat
  student_gene_space :: "gene_bounds list"

text \<open>Lines 59 to 65: one bound per registered course, or the \<open>ValueError\<close>.\<close>

fun student_gene_space_loop ::
  "('c \<Rightarrow> ('c, 't, 'r) offering list) \<Rightarrow> gene_bounds list \<Rightarrow> 'c list
     \<Rightarrow> 'c py_error + gene_bounds list" where
  "student_gene_space_loop groups acc [] = Inr acc"
| "student_gene_space_loop groups acc (course # rest) =
     (let num_available_lectures = length (groups course) in
      if num_available_lectures = 0 then Inl (NoAvailableLectures course)
      else student_gene_space_loop groups
             (acc @ [\<lparr>low = 0, high = int num_available_lectures\<rparr>]) rest)"

definition student_scheduler_init ::
  "('c, 't, 'r) student_data \<Rightarrow> 'c py_error + ('c, 't, 'r) student_scheduler_ga" where
  "student_scheduler_init sd =
     (case student_gene_space_loop (lecture_groups sd) [] (student_courses sd) of
        Inl e \<Rightarrow> Inl e
      | Inr space \<Rightarrow>
          Inr \<lparr>student_data = sd,
               student_num_genes = length (student_courses sd),
               student_gene_space = space\<rparr>)"

definition student_decode_course ::
  "('c, 't, 'r) student_scheduler_ga \<Rightarrow> rat list \<Rightarrow> nat \<times> 'c
     \<Rightarrow> 'c py_error + ('c, 't, 'r) offering" where
  "student_decode_course s solution ic =
     (case ic of (i, course) \<Rightarrow>
        (case py_get solution (int i) of
           Inl e \<Rightarrow> Inl e
         | Inr gene \<Rightarrow> py_get (lecture_groups (student_data s) course) (py_int gene)))"

definition student_decode_solution ::
  "('c, 't, 'r) student_scheduler_ga \<Rightarrow> rat list \<Rightarrow> 'c py_error + ('c, 't, 'r) offering list" where
  "student_decode_solution s solution =
     for_each (student_decode_course s solution)
       (enumerate 0 (student_courses (student_data s)))"

text \<open>Lines 91 to 102: the scan for time conflicts, then the count of study days.\<close>

fun conflict_loop ::
  "int \<times> string set \<Rightarrow> ('c, 't, 'r) offering list \<Rightarrow> int \<times> string set" where
  "conflict_loop st [] = st"
| "conflict_loop st (lecture # rest) =
     (case st of (penalty, booked_timeslots) \<Rightarrow>
        if timeslot lecture \<in> booked_timeslots
        then conflict_loop (penalty + 1000, booked_timeslots) rest
        else conflict_loop (penalty, insert (timeslot lecture) booked_timeslots) rest)"

definition student_penalty :: "('c, 't, 'r) offering list \<Rightarrow> int" where
  "student_penalty proposed_schedule =
     (let penalty = fst (conflict_loop (0, {}) proposed_schedule);
          study_days = Day ` set proposed_schedule
      in penalty + int (card study_days) * 10)"

definition student_fitness_function ::
  "('c, 't, 'r) student_scheduler_ga \<Rightarrow> rat list \<Rightarrow> 'c py_error + py_float" where
  "student_fitness_function s solution =
     (case student_decode_solution s solution of
        Inl e \<Rightarrow> Inl e
      | Inr proposed_schedule \<Rightarrow>
          map_sum ArithmeticError id (fitness_of_penalty (student_penalty proposed_schedule)))"


section \<open>The penalty rules as the specification words them\<close>

text \<open>
  A key is occupied before position \<open>i\<close> when an earlier lecture has it; \<open>repeats\<close>
  counts the occurrences beyond the first. The day and the time of a timeslot are what
  stands before and after its separator.
\<close>

definition occupied_before :: "'a list \<Rightarrow> nat \<Rightarrow> bool" where
  "occupied_before ks i = (ks ! i \<in> set (take i ks))"

definition repeats :: "'a list \<Rightarrow> nat" where
  "repeats ks = length (filter (occupied_before ks) [0..<length ks])"

definition slot_day :: "string \<Rightarrow> string" where
  "slot_day ts = takeWhile (\<lambda>c. c \<noteq> CHR ''_'') ts"

definition slot_time :: "string \<Rightarrow> string" where
  "slot_time ts = drop (Suc (length (slot_day ts))) ts"

definition in_window :: "string \<Rightarrow> string \<times> string \<Rightarrow> bool" where
  "in_window time w = (fst w \<le> time \<and> time < snd w)"

definition teacher_key :: "('c, 't, 'r) lecture \<Rightarrow> 't \<times> string" where
  "teacher_key l = (teacher_id l, timeslot l)"

definition room_key :: "('c, 't, 'r) lecture \<Rightarrow> 'r \<times> string" where
  "room_key l = (room_id l, timeslot l)"

definition day_windows ::
  "'t pref_dict \<Rightarrow> ('c, 't, 'r) lecture \<Rightarrow> (string \<times> string) list option" where
  "day_windows prefs l = prefs (teacher_id l, slot_day (timeslot l))"

definition no_window_for_day :: "'t pref_dict \<Rightarrow> ('c, 't, 'r) lecture \<Rightarrow> bool" where
  "no_window_for_day prefs l = (day_windows prefs l = None)"

definition outside_all_windows :: "'t pref_dict \<Rightarrow> ('c, 't, 'r) lecture \<Rightarrow> bool" where
  "outside_all_windows prefs l =
     (case day_windows prefs l of
        None \<Rightarrow> False
      | Some windows \<Rightarrow> \<not> list_ex (in_window (slot_time (timeslot l))) windows)"

definition within_some_window :: "'t pref_dict \<Rightarrow> ('c, 't, 'r) lecture \<Rightarrow> bool" where
  "within_some_window prefs l =
     (case day_windows prefs l of
        None \<Rightarrow> False
      | Some windows \<Rightarrow> list_ex (in_window (slot_time (timeslot l))) windows)"

definition spec_penalty :: "'t pref_dict \<Rightarrow> ('c, 't, 'r) lecture list \<Rightarrow> int" where
  "spec_penalty prefs schedule =
     1000 * int (repeats (map teacher_key schedule))
   + 1000 * int (repeats (map room_key schedule))
   + 500 * int (length (filter (no_window_for_day prefs) schedule))
   + 500 * int (length (filter (outside_all_windows prefs) schedule))"

text \<open>The scan with the set of keys seen so far made explicit.\<close>

fun repeats_from :: "'a set \<Rightarrow> 'a list \<Rightarrow> nat" where
  "repeats_from S [] = 0"
| "repeats_from S (k # ks) = (if k \<in> S then 1 else 0) + repeats_from (insert k S) ks"

text \<open>
  Clock times as numbers: a zero-padded \<open>HH:MM\<close> string and the minute of the day it
  denotes.
\<close>

definition hhmm :: "nat \<Rightarrow> nat \<Rightarrow> string" where
  "hhmm h m = format_02d h @ '':'' @ format_02d m"

definition minutes :: "nat \<Rightarrow> nat \<Rightarrow> nat" where
  "minutes h m = 60 * h + m"

text \<open>
  The numeric comparison: a string of two digits, a colon and two digits is read as a
  minute of the day, and the window test compares the numbers.
\<close>

definition digit_val :: "char \<Rightarrow> nat option" where
  "digit_val c =
     (if CHR ''0'' \<le> c \<and> c \<le> CHR ''9'' then Some (of_char c - of_char (CHR ''0'')) else None)"

definition parse_hhmm :: "string \<Rightarrow> nat option" where
  "parse_hhmm s =
     (case s of
        [a, b, c, d, e] \<Rightarrow>
          (case (digit_val a, digit_val b, c = CHR '':'', digit_val d, digit_val e) of
             (Some x, Some y, True, Some z, Some w) \<Rightarrow> Some (minutes (10 * x + y) (10 * z + w))
           | _ \<Rightarrow> None)
      | _ \<Rightarrow> None)"

definition numeric_in_window :: "string \<Rightarrow> string \<times> string \<Rightarrow> bool" where
  "numeric_in_window time w =
     (case (parse_hhmm (fst w), parse_hhmm time, parse_hhmm (snd w)) of
        (Some s, Some t, Some e) \<Rightarrow> s \<le> t \<and> t < e
      | _ \<Rightarrow> False)"


section \<open>The evolution engine\<close>

text \<open>
  Both \<open>_create_ga_instance\<close> methods only configure an engine object and \<open>run\<close> starts
  it; the generation loop itself is not among the source files. It is modelled from
  section 4.3 of the specification. Every random draw is an input: the initial
  population, and for each generation and each offspring the two parents picked from the
  mating pool, the crossover index and the genes that mutate with their new values.
\<close>

type_synonym chromosome = "rat list"

record ga_params =
  generations :: nat
  parents_mating :: nat
  sol_per_pop :: nat
  mutation_percent :: rat

record offspring_draw =
  parent_a :: nat
  parent_b :: nat
  crossover_index :: nat
  mutated :: "nat \<Rightarrow> rat option"

record engine_state =
  population :: "chromosome list"
  best_ever :: chromosome
  generations_completed :: nat
  events :: "(nat \<times> rat) list"

datatype engine_error = ConfigurationError

text \<open>
  Modelled from the spec: steady-state selection, absent from the source files. The
  individuals are ranked by fitness, best first, ties in population order, and the first
  \<open>num_parents_mating\<close> are the mating pool.
\<close>

definition select_parents :: "(chromosome \<Rightarrow> rat) \<Rightarrow> nat \<Rightarrow> chromosome list \<Rightarrow> chromosome list" where
  "select_parents fit k pop = take k (sort_key (\<lambda>c. - fit c) pop)"

text \<open>
  Modelled from the spec: single-point crossover, absent from the source files. The
  offspring has the genes of the first parent before the index and those of the second
  from the index on.
\<close>

definition single_point_crossover :: "chromosome \<Rightarrow> chromosome \<Rightarrow> nat \<Rightarrow> chromosome" where
  "single_point_crossover a b k = take k a @ drop k b"

text \<open>
  Modelled from the spec: random mutation, absent from the source files. A mutated gene
  is replaced by the value drawn for it.
\<close>

definition mutate :: "(nat \<Rightarrow> rat option) \<Rightarrow> chromosome \<Rightarrow> chromosome" where
  "mutate d c = map (\<lambda>(i, g). case d i of None \<Rightarrow> g | Some v \<Rightarrow> v) (enumerate 0 c)"

text \<open>
  Modelled from the spec: the production of one offspring, absent from the source files.
  Two parents of the mating pool are crossed at the drawn index and the result is
  mutated.
\<close>

definition make_offspring :: "chromosome list \<Rightarrow> offspring_draw \<Rightarrow> chromosome" where
  "make_offspring parents d =
     mutate (mutated d)
       (single_point_crossover
          (parents ! (parent_a d mod length parents))
          (parents ! (parent_b d mod length parents))
          (crossover_index d))"

text \<open>
  Modelled from the spec: the best chromosome by fitness, absent from the source files.
  The first of the best ones wins.
\<close>

definition best_of :: "(chromosome \<Rightarrow> rat) \<Rightarrow> chromosome \<Rightarrow> chromosome list \<Rightarrow> chromosome" where
  "best_of fit c cs = fold (\<lambda>x b. if fit b < fit x then x else b) cs c"

text \<open>
  Modelled from the spec: the best fitness of a population, absent from the source
  files. It is the value a progress event carries.
\<close>

definition current_best_fitness :: "(chromosome \<Rightarrow> rat) \<Rightarrow> chromosome list \<Rightarrow> rat" where
  "current_best_fitness fit pop = fit (best_of fit (hd pop) (tl pop))"

text \<open>
  Modelled from the spec: one generation step, absent from the source files. The
  offspring refill the non-elite part of the population, the best chromosome observed so
  far is kept beside them, and the step emits the generation index with the best fitness
  of the new population.
\<close>

definition generation_step ::
  "ga_params \<Rightarrow> (chromosome \<Rightarrow> rat) \<Rightarrow> (nat \<Rightarrow> offspring_draw) \<Rightarrow> engine_state \<Rightarrow> engine_state" where
  "generation_step params fit draw st =
     (let parents = select_parents fit (parents_mating params) (population st);
          offspring = map (\<lambda>k. make_offspring parents (draw k)) [0..<sol_per_pop params - 1];
          new_population = best_ever st # offspring;
          g = Suc (generations_completed st)
      in \<lparr>population = new_population,
          best_ever = best_of fit (best_ever st) offspring,
          generations_completed = g,
          events = events st @ [(g, current_best_fitness fit new_population)]\<rparr>)"

text \<open>
  Modelled from the spec: construction of the engine, absent from the source files. An
  inconsistent configuration fails before any generation runs.
\<close>

definition engine_init ::
  "ga_params \<Rightarrow> (chromosome \<Rightarrow> rat) \<Rightarrow> chromosome list \<Rightarrow> engine_error + engine_state" where
  "engine_init params fit initial_population =
     (if generations params = 0 \<or> sol_per_pop params = 0 \<or> parents_mating params = 0
         \<or> sol_per_pop params < parents_mating params
         \<or> length initial_population \<noteq> sol_per_pop params
      then Inl ConfigurationError
      else Inr \<lparr>population = initial_population,
                best_ever = best_of fit (hd initial_population) (tl initial_population),
                generations_completed = 0,
                events = []\<rparr>)"

text \<open>
  Modelled from the spec: the run, absent from the source files. It stops after the
  fixed number of generations and on no other condition.
\<close>

fun evolve ::
  "ga_params \<Rightarrow> (chromosome \<Rightarrow> rat) \<Rightarrow> (nat \<Rightarrow> nat \<Rightarrow> offspring_draw) \<Rightarrow> nat
     \<Rightarrow> engine_state \<Rightarrow> engine_state" where
  "evolve params fit draws 0 st = st"
| "evolve params fit draws (Suc n) st =
     evolve params fit draws n
       (generation_step params fit (draws (generations_completed st)) st)"

text \<open>
  Modelled from the spec: construction followed by the run, absent from the source
  files.
\<close>

definition engine_run ::
  "ga_params \<Rightarrow> (chromosome \<Rightarrow> rat) \<Rightarrow> chromosome list \<Rightarrow> (nat \<Rightarrow> nat \<Rightarrow> offspring_draw)
     \<Rightarrow> engine_error + engine_state" where
  "engine_run params fit initial_population draws =
     (case engine_init params fit initial_population of
        Inl e \<Rightarrow> Inl e
      | Inr st \<Rightarrow> Inr (evolve params fit draws (generations params) st))"


text \<open>What every state of a run satisfies.\<close>

definition engine_invariant :: "(chromosome \<Rightarrow> rat) \<Rightarrow> engine_state \<Rightarrow> bool" where
  "engine_invariant fit st \<longleftrightarrow>
     best_ever st \<in> set (population st)
   \<and> (\<forall>c\<in>set (population st). fit c \<le> fit (best_ever st))
   \<and> sorted (map snd (events st))
   \<and> (\<forall>e\<in>set (events st). snd e \<le> fit (best_ever st))"


section \<open>What decoding yields\<close>

text \<open>
  The assignment decoded for lecture \<open>i\<close>, the offering decoded for the \<open>i\<close>-th
  registered course, and the requirements one row of \<open>teacher_courses\<close> expands to.
\<close>

definition decoded_lecture ::
  "('c, 't, 'r) data_preparer \<Rightarrow> rat list \<Rightarrow> nat \<Rightarrow> ('c, 't, 'r) lecture" where
  "decoded_lecture dp solution i =
     \<lparr>course_id = course_id (lectures_to_schedule dp ! i),
      teacher_id = teacher_id (lectures_to_schedule dp ! i),
      room_id = classrooms dp ! nat (py_int (solution ! (2 * i))),
      timeslot = timeslots dp ! nat (py_int (solution ! Suc (2 * i)))\<rparr>"

definition student_decoded ::
  "('c, 't, 'r) student_data \<Rightarrow> rat list \<Rightarrow> nat \<times> 'c \<Rightarrow> ('c, 't, 'r) offering" where
  "student_decoded sd solution ic =
     lecture_groups sd (snd ic) ! nat (py_int (solution ! fst ic))"

definition expand_row :: "('c \<times> int) list \<Rightarrow> 't \<times> 'c \<Rightarrow> ('c, 't) lecture_info list" where
  "expand_row courses row =
     replicate (nat (the (map_of courses (snd row))))
       \<lparr>course_id = snd row, teacher_id = fst row\<rparr>"


section \<open>Example instances\<close>

definition example_prefs :: "(string \<times> string \<times> string \<times> string) list" where
  "example_prefs =
     [(''T1'', ''Sunday'', ''08:00'', ''12:00''),
      (''T1'', ''Monday'', ''10:00'', ''11:00''),
      (''T1'', ''Sunday'', ''14:00'', ''16:00''),
      (''T2'', ''Sunday'', ''09:00'', ''10:00'')]"

definition example_courses :: "(string \<times> int) list" where
  "example_courses = [(''CS101'', 2), (''CS102'', 1)]"

definition example_teacher_courses :: "(string \<times> string) list" where
  "example_teacher_courses = [(''T1'', ''CS101''), (''T2'', ''CS102'')]"

definition example_dp :: "(string, string, string) data_preparer" where
  "example_dp =
     \<lparr>classrooms = [''R1'', ''R2''],
      lectures_to_schedule =
        [\<lparr>course_id = ''CS101'', teacher_id = ''T1''\<rparr>,
         \<lparr>course_id = ''CS101'', teacher_id = ''T1''\<rparr>,
         \<lparr>course_id = ''CS102'', teacher_id = ''T2''\<rparr>],
      timeslots = build_timeslots,
      teacher_pref_dict = build_pref_dict example_prefs\<rparr>"

definition example_scheduler :: "(string, string, string) scheduler_ga" where
  "example_scheduler = scheduler_init example_dp"

definition example_master :: "(string, string, string) offering list" where
  "example_master =
     [\<lparr>course_id = ''CS101'', teacher_id = ''T1'', room_id = ''R1'',
       timeslot = ''Sunday_08:00'', Day = ''Sunday''\<rparr>,
      \<lparr>course_id = ''CS102'', teacher_id = ''T2'', room_id = ''R2'',
       timeslot = ''Sunday_08:00'', Day = ''Sunday''\<rparr>,
      \<lparr>course_id = ''CS101'', teacher_id = ''T1'', room_id = ''R1'',
       timeslot = ''Monday_10:00'', Day = ''Monday''\<rparr>,
      \<lparr>course_id = ''CS103'', teacher_id = ''T2'', room_id = ''R2'',
       timeslot = ''Monday_10:00'', Day = ''Monday''\<rparr>]"

definition example_registrations :: "(nat \<times> string) list" where
  "example_registrations =
     [(1, ''CS101''), (2, ''CS103''), (1, ''CS102''), (3, ''CS101''), (3, ''CS104'')]"

definition feasible_schedule :: "(string, string, string) lecture list" where
  "feasible_schedule =
     [\<lparr>course_id = ''CS101'', teacher_id = ''T1'', room_id = ''R1'', timeslot = ''Sunday_08:00''\<rparr>,
      \<lparr>course_id = ''CS101'', teacher_id = ''T1'', room_id = ''R1'', timeslot = ''Sunday_15:00''\<rparr>,
      \<lparr>course_id = ''CS102'', teacher_id = ''T2'', room_id = ''R2'', timeslot = ''Sunday_09:00''\<rparr>]"

definition clashing_schedule :: "(string, string, string) lecture list" where
  "clashing_schedule =
     [\<lparr>course_id = ''CS101'', teacher_id = ''T1'', room_id = ''R1'', timeslot = ''Sunday_12:00''\<rparr>,
      \<lparr>course_id = ''CS101'', teacher_id = ''T1'', room_id = ''R1'', timeslot = ''Sunday_12:00''\<rparr>,
      \<lparr>course_id = ''CS102'', teacher_id = ''T2'', room_id = ''R1'', timeslot = ''Sunday_12:00''\<rparr>,
      \<lparr>course_id = ''CS102'', teacher_id = ''T2'', room_id = ''R2'', timeslot = ''Tuesday_09:00''\<rparr>]"

definition example_sd :: "(string, string, string) student_data" where
  "example_sd =
     \<lparr>student_courses = [''CS101'', ''CS102''],
      lecture_groups = fold (group_lecture [''CS101'', ''CS102'']) example_master (\<lambda>_. [])\<rparr>"

definition example_ss :: "(string, string, string) student_scheduler_ga" where
  "example_ss =
     \<lparr>student_data = example_sd,
      student_num_genes = 2,
      student_gene_space = [\<lparr>low = 0, high = 2\<rparr>, \<lparr>low = 0, high = 1\<rparr>]\<rparr>"

definition example_sd3 :: "(string, string, string) student_data" where
  "example_sd3 =
     \<lparr>student_courses = [''CS101'', ''CS104''],
      lecture_groups = fold (group_lecture [''CS101'', ''CS104'']) example_master (\<lambda>_. [])\<rparr>"

definition clash_sd :: "(string, string, string) student_data" where
  "clash_sd =
     \<lparr>student_courses = [''CS101'', ''CS102''],
      lecture_groups = fold (group_lecture [''CS101'', ''CS102'']) (take 2 example_master) (\<lambda>_. [])\<rparr>"

definition clash_ss :: "(string, string, string) student_scheduler_ga" where
  "clash_ss =
     \<lparr>student_data = clash_sd,
      student_num_genes = 2,
      student_gene_space = [\<lparr>low = 0, high = 1\<rparr>, \<lparr>low = 0, high = 1\<rparr>]\<rparr>"

definition example_fit :: "chromosome \<Rightarrow> rat" where
  "example_fit c = 1 / (of_int (1000 * py_int (c ! 0)) + 1 / 10 ^ 9)"

definition example_draws :: "nat \<Rightarrow> nat \<Rightarrow> offspring_draw" where
  "example_draws g k =
     \<lparr>parent_a = k, parent_b = k + 1, crossover_index = 1,
      mutated = (\<lambda>i. if i = g then Some (of_nat k) else None)\<rparr>"

definition example_params :: ga_params where
  "example_params = \<lparr>generations = 2, parents_mating = 2, sol_per_pop = 3, mutation_percent = 10\<rparr>"

definition example_population :: "chromosome list" where
  "example_population = [[3, 1], [1 / 2, 0], [2, 5 / 2]]"

definition example_st0 :: engine_state where
  "example_st0 =
     \<lparr>population = example_population, best_ever = [1 / 2, 0],
      generations_completed = 0, events = []\<rparr>"


section \<open>The timeslot universe\<close>

text \<open>
  C5. The derived timeslot universe has exactly 45 distinct timeslots, the 5 weekdays
  crossed with the 9 hours 8 to 16, in day-major, hour-minor order: the slot at position
  \<open>i\<close> is day \<open>i div 9\<close> at hour \<open>8 + i mod 9\<close>.
\<close>

theorem timeslot_universe:
  "length build_timeslots = 45 \<and> distinct build_timeslots
   \<and> length days = 5 \<and> hours = [8, 9, 10, 11, 12, 13, 14, 15, 16]
   \<and> build_timeslots = map (\<lambda>i. make_timeslot (days ! (i div 9)) (8 + i mod 9)) [0..<45]"
  by code_simp

lemma build_timeslots_one_sep:
  "list_all (\<lambda>ts. count_list ts (CHR ''_'') = 1) build_timeslots"
  by code_simp

lemma universe_one_sep:
  "ts \<in> set build_timeslots \<Longrightarrow> count_list ts (CHR ''_'') = 1"
  using build_timeslots_one_sep by (simp add: list_all_iff)


section \<open>The institution penalty\<close>

subsection \<open>Splitting a timeslot\<close>

lemma split_from_no_sep:
  "sep \<notin> set s \<Longrightarrow> split_from sep cur s = [cur @ s]"
  by (induction s arbitrary: cur) auto

lemma split_from_one_sep:
  "count_list s sep = 1 \<Longrightarrow>
   split_from sep cur s =
     [cur @ takeWhile (\<lambda>c. c \<noteq> sep) s, drop (Suc (length (takeWhile (\<lambda>c. c \<noteq> sep) s))) s]"
proof (induction s arbitrary: cur)
  case Nil
  then show ?case by simp
next
  case (Cons c cs)
  show ?case
  proof (cases "c = sep")
    case True
    with Cons.prems have "count_list cs sep = 0" by simp
    then have "sep \<notin> set cs" by (simp add: count_list_0_iff)
    with True show ?thesis by (simp add: split_from_no_sep)
  next
    case False
    with Cons.prems have "count_list cs sep = 1" by simp
    from Cons.IH [OF this, of "cur @ [c]"] False show ?thesis by simp
  qed
qed

lemma str_split_slot:
  "count_list ts (CHR ''_'') = 1 \<Longrightarrow> str_split ts (CHR ''_'') = [slot_day ts, slot_time ts]"
  by (simp add: str_split_def slot_day_def slot_time_def split_from_one_sep)

subsection \<open>Counting repeated keys\<close>

lemma repeats_from_zero_iff:
  "repeats_from S ks = 0 \<longleftrightarrow> distinct ks \<and> set ks \<inter> S = {}"
  by (induction ks arbitrary: S) auto

lemma filter_upt_Suc:
  "filter P [0..<Suc n] = (if P 0 then [0] else []) @ map Suc (filter (P \<circ> Suc) [0..<n])"
proof -
  have "[0..<Suc n] = 0 # map Suc [0..<n]"
    by (simp add: upt_conv_Cons map_Suc_upt del: upt_Suc)
  then show ?thesis by (simp add: filter_map del: upt_Suc)
qed

lemma repeats_from_count:
  "repeats_from S ks = length (filter (\<lambda>i. ks ! i \<in> S \<union> set (take i ks)) [0..<length ks])"
proof (induction ks arbitrary: S)
  case Nil
  then show ?case by simp
next
  case (Cons k ks)
  have "(\<lambda>i. (k # ks) ! i \<in> S \<union> set (take i (k # ks))) \<circ> Suc
        = (\<lambda>i. ks ! i \<in> insert k S \<union> set (take i ks))"
    by (auto simp: fun_eq_iff)
  then show ?case
    using Cons.IH [of "insert k S"] by (simp add: filter_upt_Suc del: upt_Suc)
qed

lemma repeats_from_empty: "repeats_from {} ks = repeats ks"
proof -
  have "occupied_before ks = (\<lambda>i. ks ! i \<in> {} \<union> set (take i ks))"
    by (simp add: fun_eq_iff occupied_before_def)
  then show ?thesis by (simp add: repeats_from_count repeats_def)
qed

lemma repeats_zero_iff: "repeats ks = 0 \<longleftrightarrow> distinct ks"
  using repeats_from_zero_iff [of "{}" ks] by (simp add: repeats_from_empty)

subsection \<open>The scan\<close>

lemma penalty_step_eq:
  assumes "count_list (timeslot l) (CHR ''_'') = 1"
  shows "penalty_step prefs (p, tb, rb) l =
     Inr (p + (if teacher_key l \<in> dom tb then 1000 else 0)
            + (if room_key l \<in> dom rb then 1000 else 0)
            + (if no_window_for_day prefs l then 500 else 0)
            + (if outside_all_windows prefs l then 500 else 0),
          if teacher_key l \<in> dom tb then tb else tb(teacher_key l \<mapsto> 1),
          if room_key l \<in> dom rb then rb else rb(room_key l \<mapsto> 1))"
  using assms
  by (auto simp: penalty_step_def str_split_slot teacher_key_def room_key_def Let_def
        no_window_for_day_def outside_all_windows_def day_windows_def in_window_def
        list_ex_iff dom_def split: option.splits prod.splits)

lemma penalty_loop_eq:
  assumes "\<forall>l\<in>set schedule. count_list (timeslot l) (CHR ''_'') = 1"
  shows "map_sum id fst (penalty_loop prefs (p, tb, rb) schedule) =
     Inr (p + 1000 * int (repeats_from (dom tb) (map teacher_key schedule))
            + 1000 * int (repeats_from (dom rb) (map room_key schedule))
            + 500 * int (length (filter (no_window_for_day prefs) schedule))
            + 500 * int (length (filter (outside_all_windows prefs) schedule)))"
  using assms
proof (induction schedule arbitrary: p tb rb)
  case Nil
  then show ?case by simp
next
  case (Cons l ls)
  then have l: "count_list (timeslot l) (CHR ''_'') = 1"
    and ls: "\<forall>l\<in>set ls. count_list (timeslot l) (CHR ''_'') = 1" by simp_all
  let ?tb = "if teacher_key l \<in> dom tb then tb else tb(teacher_key l \<mapsto> 1)"
  let ?rb = "if room_key l \<in> dom rb then rb else rb(room_key l \<mapsto> 1)"
  have tb: "dom ?tb = insert (teacher_key l) (dom tb)" by auto
  have rb: "dom ?rb = insert (room_key l) (dom rb)" by auto
  show ?case
    unfolding penalty_loop.simps penalty_step_eq [OF l] sum.case Cons.IH [OF ls] tb rb
    by simp
qed

lemma calculate_penalty_eq:
  assumes "\<forall>l\<in>set schedule. count_list (timeslot l) (CHR ''_'') = 1"
  shows "calculate_penalty s schedule =
           Inr (spec_penalty (teacher_pref_dict (data_preparer s)) schedule)"
proof -
  have "calculate_penalty s schedule =
        map_sum id fst
          (penalty_loop (teacher_pref_dict (data_preparer s)) (0, Map.empty, Map.empty) schedule)"
    by (simp add: calculate_penalty_def split: sum.splits)
  then show ?thesis
    by (simp add: penalty_loop_eq [OF assms] spec_penalty_def repeats_from_empty)
qed

text \<open>
  C3. On a schedule whose timeslots are drawn from the timeslot universe, as every
  decoded schedule's are, the penalty is the sum over the lectures, scanned in order, of
  1000 for each lecture whose (teacher, timeslot) pair an earlier lecture already has,
  1000 for each whose (room, timeslot) pair an earlier lecture already has, 500 for each
  whose teacher has no window for the lecture's day, and 500 for each whose teacher has
  windows for that day with the start time in none of the half-open intervals from
  \<open>preferred_start\<close> to \<open>preferred_end\<close>.
\<close>

theorem penalty_is_weighted_sum:
  fixes s :: "('c, 't, 'r) scheduler_ga" and schedule :: "('c, 't, 'r) lecture list"
  assumes "\<forall>l\<in>set schedule. timeslot l \<in> set build_timeslots"
  shows "calculate_penalty s schedule =
           Inr (1000 * int (length (filter (\<lambda>i. teacher_key (schedule ! i)
                                \<in> set (take i (map teacher_key schedule))) [0..<length schedule]))
              + 1000 * int (length (filter (\<lambda>i. room_key (schedule ! i)
                                \<in> set (take i (map room_key schedule))) [0..<length schedule]))
              + 500 * int (length (filter
                    (\<lambda>l. teacher_pref_dict (data_preparer s) (teacher_id l, slot_day (timeslot l))
                           = None) schedule))
              + 500 * int (length (filter
                    (\<lambda>l. case teacher_pref_dict (data_preparer s)
                                 (teacher_id l, slot_day (timeslot l)) of
                            None \<Rightarrow> False
                          | Some windows \<Rightarrow>
                              \<not> (\<exists>w\<in>set windows. fst w \<le> slot_time (timeslot l)
                                                 \<and> slot_time (timeslot l) < snd w)) schedule)))"
proof -
  let ?prefs = "teacher_pref_dict (data_preparer s)"
  have wf: "\<forall>l\<in>set schedule. count_list (timeslot l) (CHR ''_'') = 1"
    using assms universe_one_sep by blast
  have rep: "repeats (map f schedule) =
      length (filter (\<lambda>i. f (schedule ! i) \<in> set (take i (map f schedule))) [0..<length schedule])"
    for f :: "('c, 't, 'r) lecture \<Rightarrow> 'k"
  proof -
    have "filter (occupied_before (map f schedule)) [0..<length schedule] =
          filter (\<lambda>i. f (schedule ! i) \<in> set (take i (map f schedule))) [0..<length schedule]"
      by (rule filter_cong) (simp_all add: occupied_before_def)
    then show ?thesis by (simp add: repeats_def)
  qed
  have nowin: "no_window_for_day ?prefs =
      (\<lambda>l. ?prefs (teacher_id l, slot_day (timeslot l)) = None)"
    by (simp add: fun_eq_iff no_window_for_day_def day_windows_def)
  have outside: "outside_all_windows ?prefs =
      (\<lambda>l. case ?prefs (teacher_id l, slot_day (timeslot l)) of
              None \<Rightarrow> False
            | Some windows \<Rightarrow>
                \<not> (\<exists>w\<in>set windows. fst w \<le> slot_time (timeslot l)
                                   \<and> slot_time (timeslot l) < snd w))"
    by (simp add: fun_eq_iff outside_all_windows_def day_windows_def list_ex_iff in_window_def
          split: option.splits)
  show ?thesis
    unfolding calculate_penalty_eq [OF wf] spec_penalty_def rep nowin outside ..
qed

theorem penalty_is_weighted_sum_witness:
  "calculate_penalty example_scheduler clashing_schedule = Inr 5000"
proof -
  have h: "\<forall>l\<in>set clashing_schedule. timeslot l \<in> set build_timeslots"
    by code_simp
  show ?thesis
    unfolding penalty_is_weighted_sum [OF h] by code_simp
qed

lemma within_some_window_iff:
  "within_some_window prefs l \<longleftrightarrow> \<not> no_window_for_day prefs l \<and> \<not> outside_all_windows prefs l"
  by (simp add: within_some_window_def no_window_for_day_def outside_all_windows_def
        split: option.splits)

lemma spec_penalty_is_zero:
  "spec_penalty prefs schedule = 0 \<longleftrightarrow>
     distinct (map teacher_key schedule) \<and> distinct (map room_key schedule)
     \<and> (\<forall>l\<in>set schedule. within_some_window prefs l)"
proof -
  have "spec_penalty prefs schedule = 0 \<longleftrightarrow>
          repeats (map teacher_key schedule) = 0 \<and> repeats (map room_key schedule) = 0
          \<and> filter (no_window_for_day prefs) schedule = []
          \<and> filter (outside_all_windows prefs) schedule = []"
    unfolding spec_penalty_def by (simp add: add_nonneg_eq_0_iff)
  then show ?thesis
    by (auto simp: repeats_zero_iff filter_empty_conv within_some_window_iff)
qed

text \<open>
  C1. On a schedule whose timeslots are drawn from the timeslot universe, as every
  decoded schedule's are, the penalty is computed, and it is 0 if and only if no two
  lectures have the same (teacher, timeslot) pair, no two have the same (room, timeslot)
  pair, and every lecture's teacher has, for the lecture's day, a list of windows one of
  which contains the lecture's start time.
\<close>

theorem penalty_zero_iff:
  fixes s :: "('c, 't, 'r) scheduler_ga" and schedule :: "('c, 't, 'r) lecture list"
  assumes "\<forall>l\<in>set schedule. timeslot l \<in> set build_timeslots"
  shows "\<exists>p. calculate_penalty s schedule = Inr p \<and>
           (p = 0 \<longleftrightarrow>
              distinct (map (\<lambda>l. (teacher_id l, timeslot l)) schedule)
            \<and> distinct (map (\<lambda>l. (room_id l, timeslot l)) schedule)
            \<and> (\<forall>l\<in>set schedule.
                  \<exists>windows start_time end_time.
                     teacher_pref_dict (data_preparer s) (teacher_id l, slot_day (timeslot l))
                       = Some windows
                   \<and> (start_time, end_time) \<in> set windows
                   \<and> start_time \<le> slot_time (timeslot l)
                   \<and> slot_time (timeslot l) < end_time))"
proof -
  let ?prefs = "teacher_pref_dict (data_preparer s)"
  have wf: "\<forall>l\<in>set schedule. count_list (timeslot l) (CHR ''_'') = 1"
    using assms universe_one_sep by blast
  have keys: "map (\<lambda>l. (teacher_id l, timeslot l)) schedule = map teacher_key schedule"
    "map (\<lambda>l. (room_id l, timeslot l)) schedule = map room_key schedule"
    by (simp_all add: teacher_key_def room_key_def)
  have win: "within_some_window ?prefs l \<longleftrightarrow>
      (\<exists>windows start_time end_time.
          ?prefs (teacher_id l, slot_day (timeslot l)) = Some windows
        \<and> (start_time, end_time) \<in> set windows
        \<and> start_time \<le> slot_time (timeslot l)
        \<and> slot_time (timeslot l) < end_time)" for l :: "('c, 't, 'r) lecture"
    unfolding within_some_window_def day_windows_def list_ex_iff in_window_def
    by (cases "?prefs (teacher_id l, slot_day (timeslot l))") force+
  show ?thesis
    unfolding keys calculate_penalty_eq [OF wf]
    by (simp add: spec_penalty_is_zero win)
qed

theorem penalty_zero_iff_witness:
  "calculate_penalty example_scheduler feasible_schedule = Inr 0
   \<and> distinct (map (\<lambda>l. (teacher_id l, timeslot l)) feasible_schedule)
   \<and> distinct (map (\<lambda>l. (room_id l, timeslot l)) feasible_schedule)
   \<and> (\<exists>windows start_time end_time.
         teacher_pref_dict (data_preparer example_scheduler)
           (teacher_id (feasible_schedule ! 1), slot_day (timeslot (feasible_schedule ! 1)))
             = Some windows
       \<and> (start_time, end_time) \<in> set windows
       \<and> start_time \<le> slot_time (timeslot (feasible_schedule ! 1))
       \<and> slot_time (timeslot (feasible_schedule ! 1)) < end_time)"
proof -
  have h: "\<forall>l\<in>set feasible_schedule. timeslot l \<in> set build_timeslots"
    by code_simp
  have p: "calculate_penalty example_scheduler feasible_schedule = Inr 0"
    by code_simp
  have m: "feasible_schedule ! 1 \<in> set feasible_schedule"
    by (simp add: feasible_schedule_def)
  from penalty_zero_iff [OF h, of example_scheduler] p m show ?thesis
    by auto
qed


section \<open>Decoding\<close>

lemma for_each_map:
  "(\<And>x. x \<in> set xs \<Longrightarrow> f x = Inr (g x)) \<Longrightarrow> for_each f xs = Inr (map g xs)"
  by (induction xs) simp_all

lemma py_get_in_range:
  "0 \<le> i \<Longrightarrow> i < int (length xs) \<Longrightarrow> py_get xs i = Inr (xs ! nat i)"
  by (simp add: py_get_def)

lemma py_int_in_range:
  assumes "0 \<le> g" and "g < of_int n"
  shows "0 \<le> py_int g \<and> py_int g < n"
  using assms by (simp add: py_int_def floor_less_iff)

lemma nth_gene_pairs:
  "j < 2 * n \<Longrightarrow> concat (replicate n [a, b]) ! j = (if even j then a else b)"
proof (induction n arbitrary: j)
  case 0
  then show ?case by simp
next
  case (Suc n)
  show ?case
  proof (cases "j < 2")
    case True
    then have "j = 0 \<or> j = 1" by arith
    then show ?thesis by auto
  next
    case False
    then have k: "j = Suc (Suc (j - 2))" by arith
    with Suc.prems have "j - 2 < 2 * n" by arith
    from Suc.IH [OF this] have "concat (replicate n [a, b]) ! (j - 2) = (if even j then a else b)"
      using False by simp
    moreover have "concat (replicate (Suc n) [a, b]) ! j = concat (replicate n [a, b]) ! (j - 2)"
      by (subst k) simp
    ultimately show ?thesis by simp
  qed
qed

lemma within_bounds_gene_space:
  assumes "within_bounds (build_gene_space dp n) solution" and "i < n"
  shows "length solution = 2 * n"
    and "0 \<le> solution ! (2 * i) \<and> solution ! (2 * i) < of_nat (length (classrooms dp))"
    and "0 \<le> solution ! Suc (2 * i) \<and> solution ! Suc (2 * i) < of_nat (length (timeslots dp))"
proof -
  from assms(1) have len: "length solution = length (build_gene_space dp n)"
    and all: "\<And>j. j < length solution \<Longrightarrow>
        of_int (low (build_gene_space dp n ! j)) \<le> solution ! j
        \<and> solution ! j < of_int (high (build_gene_space dp n ! j))"
    by (simp_all add: within_bounds_def list_all2_conv_all_nth)
  have l: "length (build_gene_space dp n) = 2 * n"
    by (simp add: build_gene_space_def length_concat sum_list_replicate)
  show "length solution = 2 * n" using len l by simp
  have a: "2 * i < 2 * n" and b: "Suc (2 * i) < 2 * n" using assms(2) by simp_all
  have ba: "build_gene_space dp n ! (2 * i) = \<lparr>low = 0, high = int (length (classrooms dp))\<rparr>"
    unfolding build_gene_space_def nth_gene_pairs [OF a] by simp
  have bb: "build_gene_space dp n ! Suc (2 * i) = \<lparr>low = 0, high = int (length (timeslots dp))\<rparr>"
    unfolding build_gene_space_def nth_gene_pairs [OF b] by simp
  show "0 \<le> solution ! (2 * i) \<and> solution ! (2 * i) < of_nat (length (classrooms dp))"
    using all [of "2 * i"] a len l by (simp add: ba)
  show "0 \<le> solution ! Suc (2 * i) \<and> solution ! Suc (2 * i) < of_nat (length (timeslots dp))"
    using all [of "Suc (2 * i)"] b len l by (simp add: bb)
qed

lemma py_int_index:
  assumes "0 \<le> g \<and> g < of_nat (length xs)"
  shows "py_get xs (py_int g) = Inr (xs ! nat (py_int g))"
    and "nat (py_int g) < length xs"
proof -
  from assms have "g < of_int (int (length xs))" by simp
  with assms have r: "0 \<le> py_int g" "py_int g < int (length xs)"
    using py_int_in_range by blast+
  then show "nat (py_int g) < length xs" by simp
  from r show "py_get xs (py_int g) = Inr (xs ! nat (py_int g))"
    by (simp add: py_get_def)
qed

lemma decode_lecture_in_bounds:
  assumes wb: "within_bounds (gene_space (scheduler_init dp)) solution"
    and i: "i < length (lectures_to_schedule dp)"
  shows "decode_lecture (scheduler_init dp) solution i = Inr (decoded_lecture dp solution i)"
    and "nat (py_int (solution ! (2 * i))) < length (classrooms dp)"
    and "nat (py_int (solution ! Suc (2 * i))) < length (timeslots dp)"
proof -
  let ?n = "length (lectures_to_schedule dp)"
  from wb have wb': "within_bounds (build_gene_space dp ?n) solution"
    by (simp add: scheduler_init_def Let_def)
  note b = within_bounds_gene_space [OF wb' i]
  note r = py_int_index [OF b(2)]
  note t = py_int_index [OF b(3)]
  show "nat (py_int (solution ! (2 * i))) < length (classrooms dp)" by (rule r(2))
  show "nat (py_int (solution ! Suc (2 * i))) < length (timeslots dp)" by (rule t(2))
  have g1: "py_get solution (int i * 2) = Inr (solution ! (2 * i))"
    using b(1) i by (simp add: py_get_def nat_mult_distrib mult.commute)
  have "nat (int i * 2 + 1) = Suc (2 * i)" by simp
  then have g2: "py_get solution (int i * 2 + 1) = Inr (solution ! Suc (2 * i))"
    using b(1) i by (simp add: py_get_def)
  have g0: "py_get (lectures_to_schedule dp) (int i) = Inr (lectures_to_schedule dp ! i)"
    using i by (simp add: py_get_def)
  note r1 = r(1)
  note t1 = t(1)
  have dp: "data_preparer (scheduler_init dp) = dp"
    by (simp add: scheduler_init_def Let_def)
  show "decode_lecture (scheduler_init dp) solution i = Inr (decoded_lecture dp solution i)"
    unfolding decode_lecture_def dp g0 g1 g2 decoded_lecture_def by (simp add: r1 t1)
qed

lemma decode_solution_in_bounds:
  assumes wb: "within_bounds (gene_space (scheduler_init dp)) solution"
  shows "decode_solution (scheduler_init dp) solution =
           Inr (map (decoded_lecture dp solution) [0..<length (lectures_to_schedule dp)])"
proof -
  have n: "num_lectures (scheduler_init dp) = length (lectures_to_schedule dp)"
    by (simp add: scheduler_init_def Let_def)
  show ?thesis
    unfolding decode_solution_def n
    by (rule for_each_map) (simp add: decode_lecture_in_bounds(1) [OF wb])
qed

lemma first_matching_row:
  "py_get (map snd (filter (\<lambda>r. fst r = c) courses)) 0 =
     (case map_of courses c of None \<Rightarrow> Inl IndexError | Some n \<Rightarrow> Inr n)"
  by (induction courses) (auto simp: py_get_def)

lemma lectures_loop_Inr:
  "lectures_loop courses acc rows = Inr ls \<Longrightarrow>
     (\<forall>row\<in>set rows. map_of courses (snd row) \<noteq> None)
     \<and> ls = acc @ concat (map (expand_row courses) rows)"
proof (induction rows arbitrary: acc)
  case Nil
  then show ?case by simp
next
  case (Cons row rows)
  from Cons.prems obtain n where n: "map_of courses (snd row) = Some n"
    by (auto simp: first_matching_row Let_def split: option.splits)
  with Cons.prems have
    "lectures_loop courses (acc @ expand_row courses row) rows = Inr ls"
    by (simp add: first_matching_row Let_def expand_row_def)
  from Cons.IH [OF this] n show ?case by simp
qed

lemma count_list_replicate:
  "count_list (replicate n x) y = (if x = y then n else 0)"
  by (induction n) auto

lemma count_list_concat:
  "count_list (concat xss) y = (\<Sum>xs\<leftarrow>xss. count_list xs y)"
  by (induction xss) simp_all

lemma count_expand_absent:
  "(t, c) \<notin> set rows \<Longrightarrow>
   count_list (concat (map (expand_row courses) rows)) \<lparr>course_id = c, teacher_id = t\<rparr> = 0"
  by (induction rows) (auto simp: expand_row_def count_list_replicate)

lemma count_expand_present:
  "distinct rows \<Longrightarrow> (t, c) \<in> set rows \<Longrightarrow>
   count_list (concat (map (expand_row courses) rows)) \<lparr>course_id = c, teacher_id = t\<rparr>
     = nat (the (map_of courses c))"
proof (induction rows)
  case Nil
  then show ?case by simp
next
  case (Cons row rows)
  show ?case
  proof (cases "row = (t, c)")
    case True
    with Cons.prems have "(t, c) \<notin> set rows" by simp
    then have "count_list (concat (map (expand_row courses) rows))
                 \<lparr>course_id = c, teacher_id = t\<rparr> = 0"
      by (rule count_expand_absent)
    moreover have "count_list (expand_row courses row) \<lparr>course_id = c, teacher_id = t\<rparr>
                     = nat (the (map_of courses c))"
      using True by (simp add: expand_row_def count_list_replicate)
    ultimately show ?thesis by simp
  next
    case False
    with Cons.prems have "distinct rows" "(t, c) \<in> set rows" by auto
    from Cons.IH [OF this]
    have "count_list (concat (map (expand_row courses) rows))
            \<lparr>course_id = c, teacher_id = t\<rparr> = nat (the (map_of courses c))" .
    moreover have "count_list (expand_row courses row) \<lparr>course_id = c, teacher_id = t\<rparr> = 0"
      using False by (cases row) (auto simp: expand_row_def count_list_replicate)
    ultimately show ?thesis by simp
  qed
qed

lemma student_gene_space_loop_Inr:
  "student_gene_space_loop groups acc courses = Inr space \<Longrightarrow>
     (\<forall>c\<in>set courses. groups c \<noteq> [])
     \<and> space = acc @ map (\<lambda>c. \<lparr>low = 0, high = int (length (groups c))\<rparr>) courses"
proof (induction courses arbitrary: acc)
  case Nil
  then show ?case by simp
next
  case (Cons c cs)
  from Cons.prems have ne: "groups c \<noteq> []"
    by (auto simp: Let_def split: if_splits)
  with Cons.prems have
    "student_gene_space_loop groups (acc @ [\<lparr>low = 0, high = int (length (groups c))\<rparr>]) cs = Inr space"
    by (simp add: Let_def)
  from Cons.IH [OF this] ne show ?case by simp
qed

lemma student_decode_in_bounds:
  assumes init: "student_scheduler_init sd = Inr ss"
    and wb: "within_bounds (student_gene_space ss) solution"
  shows "student_decode_solution ss solution =
           Inr (map (student_decoded sd solution) (enumerate 0 (student_courses sd)))"
    and "length solution = length (student_courses sd)"
    and "\<forall>i<length (student_courses sd).
           nat (py_int (solution ! i)) < length (lecture_groups sd (student_courses sd ! i))"
proof -
  let ?cs = "student_courses sd" and ?g = "lecture_groups sd"
  from init obtain space where
    loop: "student_gene_space_loop ?g [] ?cs = Inr space"
    and ss: "ss = \<lparr>student_data = sd, student_num_genes = length ?cs, student_gene_space = space\<rparr>"
    by (auto simp: student_scheduler_init_def split: sum.splits)
  from student_gene_space_loop_Inr [OF loop]
  have space: "space = map (\<lambda>c. \<lparr>low = 0, high = int (length (?g c))\<rparr>) ?cs" by simp
  from wb have la: "list_all2 (\<lambda>g b. of_int (low b) \<le> g \<and> g < of_int (high b)) solution
                      (map (\<lambda>c. \<lparr>low = 0, high = int (length (?g c))\<rparr>) ?cs)"
    by (simp add: ss space within_bounds_def)
  then have len: "length solution = length ?cs"
    by (auto dest: list_all2_lengthD)
  have all: "0 \<le> solution ! i \<and> solution ! i < of_nat (length (?g (?cs ! i)))"
    if "i < length ?cs" for i
    using list_all2_nthD [OF la, of i] that len by simp
  show "length solution = length ?cs" by (rule len)
  show "\<forall>i<length ?cs. nat (py_int (solution ! i)) < length (?g (?cs ! i))"
    using py_int_index(2) [OF all] by blast
  have one: "student_decode_course ss solution ic = Inr (student_decoded sd solution ic)"
    if "ic \<in> set (enumerate 0 ?cs)" for ic
  proof -
    obtain i c where ic: "ic = (i, c)" by (cases ic)
    with that have i: "i < length ?cs" and c: "c = ?cs ! i"
      by (simp_all add: in_set_enumerate_eq)
    have g: "py_get solution (int i) = Inr (solution ! i)"
      using i len by (simp add: py_get_def)
    show ?thesis
      unfolding student_decode_course_def ic
      using py_int_index(1) [OF all [OF i]]
      by (simp add: g ss c student_decoded_def)
  qed
  show "student_decode_solution ss solution =
          Inr (map (student_decoded sd solution) (enumerate 0 ?cs))"
    unfolding student_decode_solution_def
    using for_each_map [of "enumerate 0 ?cs" "student_decode_course ss solution"
        "student_decoded sd solution"] one
    by (simp add: ss)
qed

text \<open>
  C2. A chromosome whose genes lie within their declared bounds always decodes, to one
  assignment per decision unit. In the institution variant the schedule has one record
  per entry of \<open>lectures_to_schedule\<close>, with that entry's course and teacher, a room of
  \<open>classrooms\<close> and a timeslot of the universe; and a (teacher, course) pair that is a row
  of \<open>teacher_courses\<close>, the rows being distinct, has exactly the course's
  \<open>lectures_per_week\<close> entries, a pair that is no row none (\<open>range\<close> of a negative
  count is empty, so the count is \<open>nat n\<close>). In the student variant the schedule has one
  offering per registered course, taken from that course's group.
\<close>

theorem decode_total:
  fixes courses :: "('c \<times> int) list" and rooms :: "'r list"
    and teacher_courses :: "('t \<times> 'c) list"
    and dp :: "('c, 't, 'r) data_preparer"
    and sd :: "('k, 'u, 'v) student_data"
  shows
    "(prepare_data courses rooms teacher_courses teacher_preferences = Inr dp \<longrightarrow>
        (\<forall>t c. distinct teacher_courses \<and> (t, c) \<in> set teacher_courses \<longrightarrow>
           (\<exists>n. map_of courses c = Some n
              \<and> count_list (lectures_to_schedule dp) \<lparr>course_id = c, teacher_id = t\<rparr> = nat n))
      \<and> (\<forall>t c. (t, c) \<notin> set teacher_courses \<longrightarrow>
             count_list (lectures_to_schedule dp) \<lparr>course_id = c, teacher_id = t\<rparr> = 0)
      \<and> (\<forall>solution. within_bounds (gene_space (scheduler_init dp)) solution \<longrightarrow>
           (\<exists>schedule.
              decode_solution (scheduler_init dp) solution = Inr schedule
            \<and> length schedule = length (lectures_to_schedule dp)
            \<and> (\<forall>i<length schedule.
                  course_id (schedule ! i) = course_id (lectures_to_schedule dp ! i)
                \<and> teacher_id (schedule ! i) = teacher_id (lectures_to_schedule dp ! i)
                \<and> room_id (schedule ! i) \<in> set rooms
                \<and> timeslot (schedule ! i) \<in> set build_timeslots))))
   \<and> (student_scheduler_init sd = Inr ss \<longrightarrow>
        (\<forall>solution. within_bounds (student_gene_space ss) solution \<longrightarrow>
           (\<exists>schedule.
              student_decode_solution ss solution = Inr schedule
            \<and> length schedule = length (student_courses sd)
            \<and> (\<forall>i<length schedule.
                  schedule ! i \<in> set (lecture_groups sd (student_courses sd ! i))))))"
proof (intro conjI impI allI)
  fix t c
  assume prep: "prepare_data courses rooms teacher_courses teacher_preferences = Inr dp"
    and tc: "distinct teacher_courses \<and> (t, c) \<in> set teacher_courses"
  from prep obtain ls where loop: "lectures_loop courses [] teacher_courses = Inr ls"
    and dp: "lectures_to_schedule dp = ls"
    by (auto simp: prepare_data_def split: sum.splits)
  from lectures_loop_Inr [OF loop] tc
  obtain n where n: "map_of courses c = Some n"
    and ls: "ls = concat (map (expand_row courses) teacher_courses)"
    by fastforce
  from count_expand_present [of teacher_courses t c courses] tc n
  show "\<exists>n. map_of courses c = Some n
          \<and> count_list (lectures_to_schedule dp) \<lparr>course_id = c, teacher_id = t\<rparr> = nat n"
    by (simp add: dp ls)
next
  fix t c
  assume prep: "prepare_data courses rooms teacher_courses teacher_preferences = Inr dp"
    and tc: "(t, c) \<notin> set teacher_courses"
  from prep obtain ls where loop: "lectures_loop courses [] teacher_courses = Inr ls"
    and dp: "lectures_to_schedule dp = ls"
    by (auto simp: prepare_data_def split: sum.splits)
  from lectures_loop_Inr [OF loop] count_expand_absent [OF tc, of courses]
  show "count_list (lectures_to_schedule dp) \<lparr>course_id = c, teacher_id = t\<rparr> = 0"
    by (simp add: dp)
next
  fix solution
  assume prep: "prepare_data courses rooms teacher_courses teacher_preferences = Inr dp"
    and wb: "within_bounds (gene_space (scheduler_init dp)) solution"
  from prep have r: "classrooms dp = rooms" and ts: "timeslots dp = build_timeslots"
    by (auto simp: prepare_data_def split: sum.splits)
  let ?schedule = "map (decoded_lecture dp solution) [0..<length (lectures_to_schedule dp)]"
  have "\<forall>i<length ?schedule.
          course_id (?schedule ! i) = course_id (lectures_to_schedule dp ! i)
        \<and> teacher_id (?schedule ! i) = teacher_id (lectures_to_schedule dp ! i)
        \<and> room_id (?schedule ! i) \<in> set rooms
        \<and> timeslot (?schedule ! i) \<in> set build_timeslots"
    using decode_lecture_in_bounds(2,3) [OF wb]
    by (simp add: decoded_lecture_def r ts)
  with decode_solution_in_bounds [OF wb]
  show "\<exists>schedule.
          decode_solution (scheduler_init dp) solution = Inr schedule
        \<and> length schedule = length (lectures_to_schedule dp)
        \<and> (\<forall>i<length schedule.
              course_id (schedule ! i) = course_id (lectures_to_schedule dp ! i)
            \<and> teacher_id (schedule ! i) = teacher_id (lectures_to_schedule dp ! i)
            \<and> room_id (schedule ! i) \<in> set rooms
            \<and> timeslot (schedule ! i) \<in> set build_timeslots)"
    by simp
next
  fix solution
  assume init: "student_scheduler_init sd = Inr ss"
    and wb: "within_bounds (student_gene_space ss) solution"
  let ?schedule = "map (student_decoded sd solution) (enumerate 0 (student_courses sd))"
  note d = student_decode_in_bounds [OF init wb]
  have "\<forall>i<length ?schedule. ?schedule ! i \<in> set (lecture_groups sd (student_courses sd ! i))"
    using d(3) by (simp add: student_decoded_def nth_enumerate_eq)
  with d(1)
  show "\<exists>schedule.
          student_decode_solution ss solution = Inr schedule
        \<and> length schedule = length (student_courses sd)
        \<and> (\<forall>i<length schedule.
              schedule ! i \<in> set (lecture_groups sd (student_courses sd ! i)))"
    by simp
qed

theorem decode_total_witness:
  "(\<exists>schedule. decode_solution (scheduler_init example_dp) [1/2, 3, 3/2, 44, 0, 89/2] = Inr schedule
       \<and> length schedule = 3)
   \<and> count_list (lectures_to_schedule example_dp) \<lparr>course_id = ''CS101'', teacher_id = ''T1''\<rparr> = 2
   \<and> (\<exists>schedule. student_decode_solution example_ss [3/2, 1/3] = Inr schedule
       \<and> length schedule = 2)"
proof -
  have prep: "prepare_data example_courses [''R1'', ''R2''] example_teacher_courses example_prefs
                = Inr example_dp"
    by (simp add: prepare_data_def example_courses_def example_teacher_courses_def
          example_dp_def py_get_def Let_def numeral_2_eq_2)
  have wb: "within_bounds (gene_space (scheduler_init example_dp)) [1/2, 3, 3/2, 44, 0, 89/2]"
    by code_simp
  have tc: "distinct example_teacher_courses \<and> (''T1'', ''CS101'') \<in> set example_teacher_courses"
    by (simp add: example_teacher_courses_def)
  have n: "map_of example_courses ''CS101'' = Some 2"
    by (simp add: example_courses_def)
  have init: "student_scheduler_init example_sd = Inr example_ss"
    by (simp add: student_scheduler_init_def example_sd_def example_ss_def example_master_def
          group_lecture_def Let_def)
  have swb: "within_bounds (student_gene_space example_ss) [3/2, 1/3]"
    by (simp add: example_ss_def within_bounds_def)
  have len: "length (lectures_to_schedule example_dp) = 3"
    "length (student_courses example_sd) = 2"
    by (simp_all add: example_dp_def example_sd_def)
  from decode_total [of example_courses "[''R1'', ''R2'']" example_teacher_courses example_prefs
      example_dp example_sd example_ss] prep wb tc n init swb len
  show ?thesis by fastforce
qed


section \<open>The student scheduler and the fitness\<close>

lemma fold_group_lecture:
  "fold (group_lecture courses) master groups =
     (\<lambda>c. groups c @ (if c \<in> set courses then filter (\<lambda>l. course_id l = c) master else []))"
proof (induction master arbitrary: groups)
  case Nil
  then show ?case by (simp add: fun_eq_iff)
next
  case (Cons l ls)
  show ?case
    unfolding fold_simps Cons.IH
    by (auto simp: group_lecture_def fun_eq_iff)
qed

lemma prepare_student_data_Inr:
  assumes "(student_id, c) \<in> set registrations"
  shows "prepare_student_data student_id master_schedule registrations =
     Inr (\<lparr>student_courses = map snd (filter (\<lambda>r. fst r = student_id) registrations),
           lecture_groups = (\<lambda>c. if c \<in> snd ` {r \<in> set registrations. fst r = student_id}
                                   then filter (\<lambda>l. course_id l = c) master_schedule else [])\<rparr>,
          filter (\<lambda>c. \<forall>l\<in>set master_schedule. course_id l \<noteq> c)
            (map snd (filter (\<lambda>r. fst r = student_id) registrations)))"
proof -
  have ne: "filter (\<lambda>r. fst r = student_id) registrations \<noteq> []"
    using assms by (force simp: filter_empty_conv)
  have w: "filter (\<lambda>course. (if course \<in> snd ` {r \<in> set registrations. fst r = student_id}
                then filter (\<lambda>l. course_id l = course) master_schedule else []) = [])
             (map snd (filter (\<lambda>r. fst r = student_id) registrations))
         = filter (\<lambda>c. \<forall>l\<in>set master_schedule. course_id l \<noteq> c)
             (map snd (filter (\<lambda>r. fst r = student_id) registrations))"
    by (rule filter_cong) (auto simp: filter_empty_conv)
  show ?thesis
    unfolding prepare_student_data_def Let_def fold_group_lecture
    using ne by (simp add: w)
qed

lemma student_gene_space_loop_fails:
  assumes "filter (\<lambda>c. groups c = []) courses \<noteq> []"
  shows "student_gene_space_loop groups acc courses =
           Inl (NoAvailableLectures (hd (filter (\<lambda>c. groups c = []) courses)))"
  using assms
proof (induction courses arbitrary: acc)
  case Nil
  then show ?case by simp
next
  case (Cons c cs)
  then show ?case by (cases "groups c = []") (simp_all add: Let_def)
qed

lemma student_scheduler_init_fails:
  assumes "filter (\<lambda>c. lecture_groups sd c = []) (student_courses sd) \<noteq> []"
  shows "student_scheduler_init sd =
           Inl (NoAvailableLectures (hd (filter (\<lambda>c. lecture_groups sd c = []) (student_courses sd))))"
  by (simp add: student_scheduler_init_def student_gene_space_loop_fails [OF assms])

lemma conflict_loop_eq:
  "fst (conflict_loop (p, S) schedule) = p + 1000 * int (repeats_from S (map timeslot schedule))"
  by (induction schedule arbitrary: p S) (simp_all add: insert_absorb)

lemma student_penalty_eq:
  "student_penalty schedule =
     1000 * int (repeats (map timeslot schedule)) + 10 * int (card (Day ` set schedule))"
  by (simp add: student_penalty_def conflict_loop_eq repeats_from_empty)




lemma ne_of_member: "x \<in> set xs \<Longrightarrow> xs \<noteq> []"
  by (cases xs) simp_all

text \<open>
  C7. When the student is registered for a course that no lecture of the master schedule
  offers, the student data is built and constructing the student scheduler on it raises
  the \<open>ValueError\<close> naming such a course: the result is the error, not a scheduler, so
  no engine is created and no generation runs.
\<close>

theorem unscheduled_course_raises:
  assumes "prepare_student_data student_id master_schedule registrations = Inr (sd, warnings)"
    and "(student_id, c) \<in> set registrations"
    and "\<forall>l\<in>set master_schedule. course_id l \<noteq> c"
  shows "\<exists>c'. (student_id, c') \<in> set registrations
            \<and> (\<forall>l\<in>set master_schedule. course_id l \<noteq> c')
            \<and> student_scheduler_init sd = Inl (NoAvailableLectures c')"
proof -
  let ?courses = "map snd (filter (\<lambda>r. fst r = student_id) registrations)"
  let ?missing = "filter (\<lambda>c. \<forall>l\<in>set master_schedule. course_id l \<noteq> c) ?courses"
  from assms(1) prepare_student_data_Inr [OF assms(2), of master_schedule]
  have sc: "student_courses sd = ?courses"
    and lg: "lecture_groups sd = (\<lambda>c. if c \<in> snd ` {r \<in> set registrations. fst r = student_id}
                                   then filter (\<lambda>l. course_id l = c) master_schedule else [])"
    by auto
  have eq: "filter (\<lambda>c. lecture_groups sd c = []) (student_courses sd) = ?missing"
    unfolding sc lg by (rule filter_cong) (auto simp: filter_empty_conv)
  have "c \<in> set ?missing" using assms(2,3) by force
  then have ne: "?missing \<noteq> []" by (rule ne_of_member)
  then have "hd ?missing \<in> set ?missing" by (rule hd_in_set)
  then have "(student_id, hd ?missing) \<in> set registrations"
    and "\<forall>l\<in>set master_schedule. course_id l \<noteq> hd ?missing"
    by auto
  moreover have "student_scheduler_init sd = Inl (NoAvailableLectures (hd ?missing))"
    using student_scheduler_init_fails [of sd] ne by (simp add: eq)
  ultimately show ?thesis by blast
qed

theorem unscheduled_course_raises_witness:
  "\<exists>c'. (3, c') \<in> set example_registrations
        \<and> (\<forall>l\<in>set example_master. course_id l \<noteq> c')
        \<and> student_scheduler_init example_sd3 = Inl (NoAvailableLectures c')"
proof -
  have a: "prepare_student_data (3::nat) example_master example_registrations
             = Inr (example_sd3, [''CS104''])"
    by (simp add: prepare_student_data_def example_registrations_def example_sd3_def Let_def
          example_master_def group_lecture_def)
  have b: "(3, ''CS104'') \<in> set example_registrations"
    by (simp add: example_registrations_def)
  have c: "\<forall>l\<in>set example_master. course_id l \<noteq> ''CS104''"
    by (simp add: example_master_def)
  from unscheduled_course_raises [OF a b c] show ?thesis .
qed

text \<open>
  C8, as stated, fails: student 3 is registered for CS104, which the master schedule does
  not offer; the warning is logged, and constructing the scheduler raises.
\<close>

theorem warning_is_fatal_counterexample:
  "prepare_student_data (3::nat) example_master example_registrations
     = Inr (example_sd3, [''CS104''])
   \<and> student_scheduler_init example_sd3 = Inl (NoAvailableLectures ''CS104'')"
  by (simp add: prepare_student_data_def example_registrations_def example_sd3_def Let_def
        example_master_def group_lecture_def student_scheduler_init_def)

text \<open>
  C8, amended. When a registered course has no matching lecture in the master schedule,
  building the student data is not fatal and logs a warning naming the course; the
  construction of the scheduler on that data then fails, so no schedule is produced.
\<close>

theorem unscheduled_course_warns_then_fails:
  assumes "(student_id, c) \<in> set registrations"
    and "\<forall>l\<in>set master_schedule. course_id l \<noteq> c"
  shows "\<exists>sd warnings.
           prepare_student_data student_id master_schedule registrations = Inr (sd, warnings)
         \<and> c \<in> set warnings
         \<and> (\<forall>ss. student_scheduler_init sd \<noteq> Inr ss)"
proof -
  let ?courses = "map snd (filter (\<lambda>r. fst r = student_id) registrations)"
  let ?missing = "filter (\<lambda>c. \<forall>l\<in>set master_schedule. course_id l \<noteq> c) ?courses"
  let ?sd = "\<lparr>student_courses = ?courses,
              lecture_groups = (\<lambda>c. if c \<in> snd ` {r \<in> set registrations. fst r = student_id}
                                   then filter (\<lambda>l. course_id l = c) master_schedule else [])\<rparr>"
  have p: "prepare_student_data student_id master_schedule registrations = Inr (?sd, ?missing)"
    by (rule prepare_student_data_Inr [OF assms(1)])
  have eq: "filter (\<lambda>c. lecture_groups ?sd c = []) (student_courses ?sd) = ?missing"
    unfolding student_data.simps by (rule filter_cong) (auto simp: filter_empty_conv)
  have c: "c \<in> set ?missing" using assms by force
  then have ne: "?missing \<noteq> []" by (rule ne_of_member)
  have "student_scheduler_init ?sd = Inl (NoAvailableLectures (hd ?missing))"
    using student_scheduler_init_fails [of ?sd] ne unfolding eq by simp
  then have "\<forall>ss. student_scheduler_init ?sd \<noteq> Inr ss" by simp
  with p c show ?thesis by blast
qed

theorem unscheduled_course_warns_then_fails_witness:
  "\<exists>sd warnings.
      prepare_student_data (3::nat) example_master example_registrations = Inr (sd, warnings)
    \<and> ''CS104'' \<in> set warnings
    \<and> (\<forall>ss. student_scheduler_init sd \<noteq> Inr ss)"
proof -
  have b: "(3, ''CS104'') \<in> set example_registrations"
    by (simp add: example_registrations_def)
  have c: "\<forall>l\<in>set example_master. course_id l \<noteq> ''CS104''"
    by (simp add: example_master_def)
  from unscheduled_course_warns_then_fails [OF b c] show ?thesis .
qed

lemma student_scheduler_init_two:
  assumes "student_courses sd = [c1, c2]"
    and "lecture_groups sd c1 = [o1]" and "lecture_groups sd c2 = [o2]"
  shows "student_scheduler_init sd =
           Inr \<lparr>student_data = sd, student_num_genes = 2,
                student_gene_space = [\<lparr>low = 0, high = 1\<rparr>, \<lparr>low = 0, high = 1\<rparr>]\<rparr>"
  using assms by (simp add: student_scheduler_init_def Let_def)

text \<open>
  C9. For a student registered for exactly two courses, each with exactly one offering,
  the two offerings at the same timeslot, the scheduler is constructed, every chromosome
  within bounds decodes to the two offerings, and the penalty of that schedule is
  1000 + 10 d, where d, 1 or 2, is the number of distinct days of the two offerings. In
  general the penalty is 1000 for each offering whose timeslot an earlier offering of the
  schedule has, plus 10 for every distinct day of the schedule.
\<close>

theorem two_clashing_courses:
  assumes courses: "student_courses sd = [c1, c2]"
    and g1: "lecture_groups sd c1 = [o1]" and g2: "lecture_groups sd c2 = [o2]"
    and clash: "timeslot o1 = timeslot o2"
  shows "\<exists>ss. student_scheduler_init sd = Inr ss
           \<and> (\<forall>solution. within_bounds (student_gene_space ss) solution \<longrightarrow>
                 student_decode_solution ss solution = Inr [o1, o2]
               \<and> student_fitness_function ss solution
                   = map_sum ArithmeticError id (fitness_of_penalty (student_penalty [o1, o2])))
           \<and> student_penalty [o1, o2] = 1000 + 10 * int (card {Day o1, Day o2})
           \<and> (card {Day o1, Day o2} = 1 \<or> card {Day o1, Day o2} = 2)
           \<and> (\<forall>schedule :: ('a, 'b, 'c) offering list.
                 student_penalty schedule =
                   1000 * int (length (filter (\<lambda>i. timeslot (schedule ! i)
                                  \<in> set (take i (map timeslot schedule))) [0..<length schedule]))
                   + 10 * int (card (Day ` set schedule)))"
proof -
  let ?ss = "\<lparr>student_data = sd, student_num_genes = 2,
               student_gene_space = [\<lparr>low = 0, high = 1\<rparr>, \<lparr>low = 0, high = 1\<rparr>]\<rparr>"
  have init: "student_scheduler_init sd = Inr ?ss"
    by (rule student_scheduler_init_two [OF courses g1 g2])
  have dec: "student_decode_solution ?ss solution = Inr [o1, o2]"
    if wb: "within_bounds (student_gene_space ?ss) solution" for solution
  proof -
    note d = student_decode_in_bounds [OF init wb]
    have "nat (py_int (solution ! 0)) = 0"
      using d(3) [rule_format, of 0] by (simp add: courses g1)
    moreover have "nat (py_int (solution ! Suc 0)) = 0"
      using d(3) [rule_format, of "Suc 0"] by (simp add: courses g2)
    ultimately show ?thesis
      using d(1) by (simp add: courses student_decoded_def g1 g2)
  qed
  have pen: "student_penalty [o1, o2] = 1000 + 10 * int (card {Day o1, Day o2})"
    using clash by (simp add: student_penalty_def)
  have days: "card {Day o1, Day o2} = 1 \<or> card {Day o1, Day o2} = 2"
    by (cases "Day o1 = Day o2") simp_all
  have gen: "student_penalty schedule =
               1000 * int (length (filter (\<lambda>i. timeslot (schedule ! i)
                              \<in> set (take i (map timeslot schedule))) [0..<length schedule]))
               + 10 * int (card (Day ` set schedule))"
    for schedule :: "('a, 'b, 'c) offering list"
  proof -
    have "filter (occupied_before (map timeslot schedule)) [0..<length schedule] =
          filter (\<lambda>i. timeslot (schedule ! i) \<in> set (take i (map timeslot schedule)))
            [0..<length schedule]"
      by (rule filter_cong) (simp_all add: occupied_before_def)
    then show ?thesis by (simp add: student_penalty_eq repeats_def)
  qed
  from init dec pen days gen show ?thesis
    by (auto simp: student_fitness_function_def)
qed

theorem two_clashing_courses_witness:
  "student_decode_solution clash_ss [1/2, 1/3] = Inr (take 2 example_master)
   \<and> student_penalty (take 2 example_master) = 1010"
proof -
  have a: "student_courses clash_sd = [''CS101'', ''CS102'']"
    by (simp add: clash_sd_def)
  have b: "lecture_groups clash_sd ''CS101'' = [example_master ! 0]"
    by (simp add: clash_sd_def example_master_def group_lecture_def)
  have c: "lecture_groups clash_sd ''CS102'' = [example_master ! 1]"
    by (simp add: clash_sd_def example_master_def group_lecture_def)
  have d: "timeslot (example_master ! 0) = timeslot (example_master ! 1)"
    by (simp add: example_master_def)
  have i: "student_scheduler_init clash_sd = Inr clash_ss"
    by (simp add: student_scheduler_init_def Let_def a b c clash_ss_def)
  have w: "within_bounds (student_gene_space clash_ss) [1/2, 1/3]"
    by (simp add: clash_ss_def within_bounds_def)
  have e: "take 2 example_master = [example_master ! 0, example_master ! 1]"
    "card {Day (example_master ! 0), Day (example_master ! 1)} = 1"
    by (simp_all add: example_master_def)
  from two_clashing_courses [OF a b c d] i w e show ?thesis
    by auto
qed




section \<open>The fitness in double precision\<close>

subsection \<open>Powers of two and the binary exponent\<close>









subsection \<open>Rounding to the nearest double\<close>





























lemma eps_literal: "round_double (1 / 10 ^ 9) = float_1e_9"
  by code_simp


subsection \<open>The value of \<open>1.0 / (penalty + 1e-9)\<close>\<close>





















section \<open>String order and clock order\<close>

lemma digit_char_code: "a < 10 \<Longrightarrow> of_char (digit_char a) = 48 + a"
proof -
  assume "a < 10"
  then have "a = 0 \<or> a = 1 \<or> a = 2 \<or> a = 3 \<or> a = 4 \<or> a = 5 \<or> a = 6 \<or> a = 7 \<or> a = 8 \<or> a = 9"
    by arith
  then show ?thesis
    by (elim disjE) (simp_all add: digit_char_def)
qed

lemma digit_char_less: "a < 10 \<Longrightarrow> b < 10 \<Longrightarrow> digit_char a < digit_char b \<longleftrightarrow> a < b"
  by (simp add: less_char_def digit_char_code)

lemma digit_char_eq: "a < 10 \<Longrightarrow> b < 10 \<Longrightarrow> digit_char a = digit_char b \<longleftrightarrow> a = b"
proof
  assume a: "a < 10" "b < 10" and "digit_char a = digit_char b"
  then have "(of_char (digit_char a) :: nat) = of_char (digit_char b)" by simp
  with a show "a = b" by (simp add: digit_char_code)
qed simp

lemma digit_val_digit_char: "a < 10 \<Longrightarrow> digit_val (digit_char a) = Some a"
  by (simp add: digit_val_def less_eq_char_def digit_char_code)

lemma format_02d_two:
  "n < 100 \<Longrightarrow> format_02d n = [digit_char (n div 10), digit_char (n mod 10)]"
proof (cases "n < 10")
  case True
  then have "str_nat n = [digit_char n]" by (simp add: str_nat.simps)
  with True show ?thesis by (simp add: format_02d_def digit_char_def)
next
  case False
  assume "n < 100"
  then have "n div 10 < 10" by simp
  then have "str_nat (n div 10) = [digit_char (n div 10)]" by (simp add: str_nat.simps)
  with False have "str_nat n = [digit_char (n div 10), digit_char (n mod 10)]"
    by (subst str_nat.simps) simp
  then show ?thesis by (simp add: format_02d_def)
qed

lemma hhmm_chars:
  "h < 100 \<Longrightarrow> m < 100 \<Longrightarrow>
   hhmm h m = [digit_char (h div 10), digit_char (h mod 10), CHR '':'',
               digit_char (m div 10), digit_char (m mod 10)]"
  by (simp add: hhmm_def format_02d_two)

lemma parse_hhmm_hhmm: "h < 100 \<Longrightarrow> m < 100 \<Longrightarrow> parse_hhmm (hhmm h m) = Some (minutes h m)"
  by (simp add: hhmm_chars parse_hhmm_def digit_val_digit_char)

lemma lex_pair_less:
  fixes k :: nat
  assumes "y1 < k" "y2 < k"
  shows "(x1 < x2 \<or> x1 = x2 \<and> y1 < y2) \<longleftrightarrow> k * x1 + y1 < k * x2 + y2"
proof -
  have up: "k * a + b < k * c + d" if "a < c" "b < k" for a b c d
  proof -
    from that(2) have "k * a + b < k * Suc a" by simp
    also have "\<dots> \<le> k * c" using that(1) by (intro mult_le_mono2) simp
    also have "\<dots> \<le> k * c + d" by simp
    finally show ?thesis .
  qed
  show ?thesis
  proof (cases x1 x2 rule: linorder_cases)
    case less
    then show ?thesis using up [OF less assms(1), of y2] by simp
  next
    case equal
    then show ?thesis by simp
  next
    case greater
    from up [OF greater assms(2), of y1] greater show ?thesis by simp
  qed
qed

lemma lex_pair_eq:
  fixes k :: nat
  assumes "y1 < k" "y2 < k"
  shows "(x1 = x2 \<and> y1 = y2) \<longleftrightarrow> k * x1 + y1 = k * x2 + y2"
proof
  assume eq: "k * x1 + y1 = k * x2 + y2"
  then have "\<not> k * x1 + y1 < k * x2 + y2" "\<not> k * x2 + y2 < k * x1 + y1" by simp_all
  then have a: "\<not> (x1 < x2 \<or> x1 = x2 \<and> y1 < y2)" and b: "\<not> (x2 < x1 \<or> x2 = x1 \<and> y2 < y1)"
    using lex_pair_less [OF assms, of x1 x2] lex_pair_less [OF assms(2,1), of x2 x1]
    by blast+
  from a b have "x1 = x2" by simp
  with a b show "x1 = x2 \<and> y1 = y2" by simp
qed simp

lemma two_digit_less:
  "(a div 10 < b div 10 \<or> a div 10 = b div 10 \<and> a mod 10 < b mod 10) \<longleftrightarrow> a < (b::nat)"
  using lex_pair_less [of "a mod 10" 10 "b mod 10" "a div 10" "b div 10"] by simp

lemma two_digit_eq:
  "(a div 10 = b div 10 \<and> a mod 10 = b mod 10) \<longleftrightarrow> a = (b::nat)"
  using lex_pair_eq [of "a mod 10" 10 "b mod 10" "a div 10" "b div 10"] by simp

lemma minutes_less:
  "m1 < 60 \<Longrightarrow> m2 < 60 \<Longrightarrow> (h1 < h2 \<or> h1 = h2 \<and> m1 < m2) \<longleftrightarrow> minutes h1 m1 < minutes h2 m2"
  unfolding minutes_def by (rule lex_pair_less)

lemma minutes_eq:
  "m1 < 60 \<Longrightarrow> m2 < 60 \<Longrightarrow> (h1 = h2 \<and> m1 = m2) \<longleftrightarrow> minutes h1 m1 = minutes h2 m2"
  unfolding minutes_def by (rule lex_pair_eq)

lemma hhmm_less:
  assumes "h1 < 100" "m1 < 60" "h2 < 100" "m2 < 60"
  shows "hhmm h1 m1 < hhmm h2 m2 \<longleftrightarrow> minutes h1 m1 < minutes h2 m2"
proof -
  have d: "h1 div 10 < 10" "h1 mod 10 < 10" "m1 div 10 < 10" "m1 mod 10 < 10"
    "h2 div 10 < 10" "h2 mod 10 < 10" "m2 div 10 < 10" "m2 mod 10 < 10"
    using assms by simp_all
  have m: "m1 < 100" "m2 < 100" using assms by simp_all
  have "hhmm h1 m1 < hhmm h2 m2 \<longleftrightarrow>
        (h1 div 10 < h2 div 10 \<or> h1 div 10 = h2 div 10 \<and>
          (h1 mod 10 < h2 mod 10 \<or> h1 mod 10 = h2 mod 10 \<and>
            (m1 div 10 < m2 div 10 \<or> m1 div 10 = m2 div 10 \<and> m1 mod 10 < m2 mod 10)))"
    unfolding hhmm_chars [OF assms(1) m(1)] hhmm_chars [OF assms(3) m(2)]
    by (simp add: d digit_char_less digit_char_eq)
  also have "\<dots> \<longleftrightarrow> (h1 < h2 \<or> h1 = h2 \<and> m1 < m2)"
    unfolding two_digit_less [of m1 m2]
    using two_digit_less [of h1 h2] two_digit_eq [of h1 h2] by blast
  also have "\<dots> \<longleftrightarrow> minutes h1 m1 < minutes h2 m2"
    by (rule minutes_less [OF assms(2,4)])
  finally show ?thesis .
qed

lemma hhmm_inj:
  assumes "h1 < 100" "m1 < 60" "h2 < 100" "m2 < 60"
  shows "hhmm h1 m1 = hhmm h2 m2 \<longleftrightarrow> minutes h1 m1 = minutes h2 m2"
proof -
  have d: "h1 div 10 < 10" "h1 mod 10 < 10" "m1 div 10 < 10" "m1 mod 10 < 10"
    "h2 div 10 < 10" "h2 mod 10 < 10" "m2 div 10 < 10" "m2 mod 10 < 10"
    using assms by simp_all
  have m: "m1 < 100" "m2 < 100" using assms by simp_all
  have "hhmm h1 m1 = hhmm h2 m2 \<longleftrightarrow>
        (h1 div 10 = h2 div 10 \<and> h1 mod 10 = h2 mod 10)
        \<and> (m1 div 10 = m2 div 10 \<and> m1 mod 10 = m2 mod 10)"
    unfolding hhmm_chars [OF assms(1) m(1)] hhmm_chars [OF assms(3) m(2)]
    by (simp add: d digit_char_eq)
  also have "\<dots> \<longleftrightarrow> h1 = h2 \<and> m1 = m2"
    unfolding two_digit_eq ..
  also have "\<dots> \<longleftrightarrow> minutes h1 m1 = minutes h2 m2"
    by (rule minutes_eq [OF assms(2,4)])
  finally show ?thesis .
qed

lemma hhmm_le:
  assumes "h1 < 100" "m1 < 60" "h2 < 100" "m2 < 60"
  shows "hhmm h1 m1 \<le> hhmm h2 m2 \<longleftrightarrow> minutes h1 m1 \<le> minutes h2 m2"
  unfolding le_less hhmm_less [OF assms] hhmm_inj [OF assms] ..

lemma slot_parts:
  assumes "CHR ''_'' \<notin> set day"
  shows "slot_day (make_timeslot day hour) = day"
    and "slot_time (make_timeslot day hour) = hhmm hour 0"
proof -
  have z: "format_02d 0 = ''00''" by code_simp
  have "takeWhile (\<lambda>c. c \<noteq> CHR ''_'') (day @ CHR ''_'' # rest) = day" for rest
    using assms by (induction day) auto
  then show a: "slot_day (make_timeslot day hour) = day"
    by (simp add: slot_day_def make_timeslot_def)
  show "slot_time (make_timeslot day hour) = hhmm hour 0"
    unfolding slot_time_def a by (simp add: make_timeslot_def hhmm_def z)
qed

lemma universe_slot_time:
  assumes "ts \<in> set build_timeslots"
  shows "\<exists>h. 8 \<le> h \<and> h \<le> 16 \<and> slot_time ts = hhmm h 0"
proof -
  from assms obtain day hour where ts: "ts = make_timeslot day hour"
    and day: "day \<in> set days" and hour: "hour \<in> set hours"
    by (auto simp: build_timeslots_def)
  from day have "CHR ''_'' \<notin> set day" by (auto simp: days_def)
  then have st: "slot_time ts = hhmm hour 0"
    unfolding ts by (rule slot_parts(2))
  from hour have "hour \<in> {8..<17}"
    unfolding hours_def set_upt .
  then have "8 \<le> hour \<and> hour \<le> 16" by simp
  with st show ?thesis by blast
qed

text \<open>
  C10. The time component of every generated timeslot is the zero-padded two-digit hour
  followed by \<open>:00\<close>, from 08:00 to 16:00, and it is what the split of the penalty
  scan yields. On zero-padded \<open>HH:MM\<close> strings the lexicographic test
  \<open>start <= time < end\<close> of the availability check and the numeric test on the
  minutes of the day give the same result.
\<close>

theorem lexicographic_matches_numeric:
  "map slot_time build_timeslots =
     concat (replicate 5 [''08:00'', ''09:00'', ''10:00'', ''11:00'', ''12:00'',
                          ''13:00'', ''14:00'', ''15:00'', ''16:00''])
   \<and> (\<forall>ts\<in>set build_timeslots.
         \<exists>h. 8 \<le> h \<and> h \<le> 16 \<and> str_split ts (CHR ''_'') = [slot_day ts, hhmm h 0])
   \<and> (\<forall>h m sh sm eh em.
         h < 100 \<and> m < 60 \<and> sh < 100 \<and> sm < 60 \<and> eh < 100 \<and> em < 60 \<longrightarrow>
           (hhmm sh sm \<le> hhmm h m \<and> hhmm h m < hhmm eh em)
             = numeric_in_window (hhmm h m) (hhmm sh sm, hhmm eh em)
         \<and> numeric_in_window (hhmm h m) (hhmm sh sm, hhmm eh em)
             = (minutes sh sm \<le> minutes h m \<and> minutes h m < minutes eh em))"
proof (intro conjI ballI allI impI)
  show "map slot_time build_timeslots =
     concat (replicate 5 [''08:00'', ''09:00'', ''10:00'', ''11:00'', ''12:00'',
                          ''13:00'', ''14:00'', ''15:00'', ''16:00''])"
    by code_simp
next
  fix ts
  assume ts: "ts \<in> set build_timeslots"
  from universe_slot_time [OF ts] str_split_slot [OF universe_one_sep [OF ts]]
  show "\<exists>h. 8 \<le> h \<and> h \<le> 16 \<and> str_split ts (CHR ''_'') = [slot_day ts, hhmm h 0]"
    by auto
next
  fix h m sh sm eh em :: nat
  assume a: "h < 100 \<and> m < 60 \<and> sh < 100 \<and> sm < 60 \<and> eh < 100 \<and> em < 60"
  then have b: "m < 100" "sm < 100" "em < 100" by simp_all
  from a b have num: "numeric_in_window (hhmm h m) (hhmm sh sm, hhmm eh em)
          = (minutes sh sm \<le> minutes h m \<and> minutes h m < minutes eh em)"
    by (simp add: numeric_in_window_def parse_hhmm_hhmm)
  from a have le: "hhmm sh sm \<le> hhmm h m \<longleftrightarrow> minutes sh sm \<le> minutes h m"
    by (simp add: hhmm_le)
  from a have less: "hhmm h m < hhmm eh em \<longleftrightarrow> minutes h m < minutes eh em"
    by (simp add: hhmm_less)
  show "(hhmm sh sm \<le> hhmm h m \<and> hhmm h m < hhmm eh em)
          = numeric_in_window (hhmm h m) (hhmm sh sm, hhmm eh em)"
    unfolding num le less ..
  show "numeric_in_window (hhmm h m) (hhmm sh sm, hhmm eh em)
          = (minutes sh sm \<le> minutes h m \<and> minutes h m < minutes eh em)"
    by (rule num)
qed

theorem lexicographic_matches_numeric_witness:
  "(\<exists>h. 8 \<le> h \<and> h \<le> 16
        \<and> str_split ''Monday_10:00'' (CHR ''_'') = [slot_day ''Monday_10:00'', hhmm h 0])
   \<and> ((''08:30'' \<le> ''10:00'' \<and> ''10:00'' < ''10:30'')
        = numeric_in_window ''10:00'' (''08:30'', ''10:30''))
   \<and> numeric_in_window ''10:00'' (''08:30'', ''10:30'')"
proof -
  have ts: "''Monday_10:00'' \<in> set build_timeslots" by code_simp
  have b: "(10::nat) < 100 \<and> (0::nat) < 60 \<and> (8::nat) < 100 \<and> (30::nat) < 60
            \<and> (10::nat) < 100 \<and> (30::nat) < 60" by simp
  have s: "hhmm 10 0 = ''10:00''" "hhmm 8 30 = ''08:30''" "hhmm 10 30 = ''10:30''"
    by code_simp+
  have n: "minutes 8 30 \<le> minutes 10 0 \<and> minutes 10 0 < minutes 10 30"
    by (simp add: minutes_def)
  note t = lexicographic_matches_numeric
  from t [THEN conjunct2, THEN conjunct1, rule_format, OF ts]
    t [THEN conjunct2, THEN conjunct2, rule_format, OF b] n
  show ?thesis unfolding s by blast
qed


section \<open>Elitism\<close>

lemma best_of_Cons:
  "best_of fit c (x # xs) = best_of fit (if fit c < fit x then x else c) xs"
  by (simp add: best_of_def)

lemma best_of_in: "best_of fit c cs \<in> set (c # cs)"
proof (induction cs arbitrary: c)
  case Nil
  then show ?case by (simp add: best_of_def)
next
  case (Cons x xs)
  from Cons [of "if fit c < fit x then x else c"] show ?case
    unfolding best_of_Cons by (auto split: if_splits)
qed

lemma best_of_ge_start: "fit c \<le> fit (best_of fit c cs)"
proof (induction cs arbitrary: c)
  case Nil
  then show ?case by (simp add: best_of_def)
next
  case (Cons x xs)
  from Cons [of "if fit c < fit x then x else c"] show ?case
    unfolding best_of_Cons by (auto split: if_splits)
qed

lemma best_of_ge: "x \<in> set (c # cs) \<Longrightarrow> fit x \<le> fit (best_of fit c cs)"
proof (induction cs arbitrary: c)
  case Nil
  then show ?case by (simp add: best_of_def)
next
  case (Cons y ys)
  let ?b = "if fit c < fit y then y else c"
  have b: "fit c \<le> fit ?b" "fit y \<le> fit ?b" by auto
  from Cons.prems consider "x = c" | "x = y" | "x \<in> set ys" by auto
  then show ?case
  proof cases
    case 1
    with b(1) best_of_ge_start [of fit ?b ys] show ?thesis
      unfolding best_of_Cons by (blast intro: order_trans)
  next
    case 2
    with b(2) best_of_ge_start [of fit ?b ys] show ?thesis
      unfolding best_of_Cons by (blast intro: order_trans)
  next
    case 3
    then have "x \<in> set (?b # ys)" by simp
    from Cons.IH [OF this] show ?thesis unfolding best_of_Cons .
  qed
qed

lemma current_best_is_max:
  assumes "b \<in> set pop" and "\<forall>c\<in>set pop. fit c \<le> fit b"
  shows "current_best_fitness fit pop = fit b"
proof -
  from assms(1) have ne: "pop \<noteq> []" by auto
  then have pop: "hd pop # tl pop = pop" by simp
  have "best_of fit (hd pop) (tl pop) \<in> set pop"
    using best_of_in [of fit "hd pop" "tl pop"] by (simp add: pop)
  with assms(2) have "fit (best_of fit (hd pop) (tl pop)) \<le> fit b" by blast
  moreover have "fit b \<le> fit (best_of fit (hd pop) (tl pop))"
    using best_of_ge [of b "hd pop" "tl pop" fit] assms(1) by (simp add: pop)
  ultimately show ?thesis by (simp add: current_best_fitness_def)
qed

lemma step_fields:
  "population (generation_step params fit draw st) =
     best_ever st # map (\<lambda>k. make_offspring
        (select_parents fit (parents_mating params) (population st)) (draw k))
        [0..<sol_per_pop params - 1]"
  "best_ever (generation_step params fit draw st) =
     best_of fit (best_ever st) (tl (population (generation_step params fit draw st)))"
  "generations_completed (generation_step params fit draw st) = Suc (generations_completed st)"
  "events (generation_step params fit draw st) =
     events st @ [(Suc (generations_completed st),
                   current_best_fitness fit (population (generation_step params fit draw st)))]"
  by (simp_all add: generation_step_def Let_def)

lemma step_best:
  shows "best_ever st \<in> set (population (generation_step params fit draw st))"
    and "best_ever (generation_step params fit draw st)
           \<in> set (population (generation_step params fit draw st))"
    and "\<forall>c\<in>set (population (generation_step params fit draw st)).
           fit c \<le> fit (best_ever (generation_step params fit draw st))"
    and "fit (best_ever st) \<le> fit (best_ever (generation_step params fit draw st))"
    and "current_best_fitness fit (population (generation_step params fit draw st))
           = fit (best_ever (generation_step params fit draw st))"
    and "length (population (generation_step params fit draw st))
           = Suc (sol_per_pop params - 1)"
proof -
  let ?st' = "generation_step params fit draw st"
  obtain offs where pop: "population ?st' = best_ever st # offs"
    and len: "length offs = sol_per_pop params - 1"
    unfolding step_fields(1) by simp
  have best: "best_ever ?st' = best_of fit (best_ever st) offs"
    unfolding step_fields(2) using pop by simp
  show "best_ever st \<in> set (population ?st')" by (simp add: pop)
  show a: "best_ever ?st' \<in> set (population ?st')"
    unfolding pop best by (rule best_of_in)
  show b: "\<forall>c\<in>set (population ?st'). fit c \<le> fit (best_ever ?st')"
    unfolding pop best using best_of_ge by blast
  show "fit (best_ever st) \<le> fit (best_ever ?st')"
    unfolding best by (rule best_of_ge_start)
  show "current_best_fitness fit (population ?st') = fit (best_ever ?st')"
    by (rule current_best_is_max [OF a b])
  show "length (population ?st') = Suc (sol_per_pop params - 1)"
    by (simp add: pop len)
qed

lemma step_invariant:
  assumes "engine_invariant fit st"
  shows "engine_invariant fit (generation_step params fit draw st)"
proof -
  let ?st' = "generation_step params fit draw st"
  note s = step_best [where st = st and params = params and fit = fit and draw = draw]
  from assms have old: "sorted (map snd (events st))"
    "\<forall>e\<in>set (events st). snd e \<le> fit (best_ever st)"
    by (simp_all add: engine_invariant_def)
  from old(2) s(4) have le: "\<forall>e\<in>set (events st). snd e \<le> fit (best_ever ?st')"
    by (blast intro: order_trans)
  have ev: "events ?st' = events st @ [(Suc (generations_completed st), fit (best_ever ?st'))]"
    unfolding step_fields(4) s(5) ..
  have "sorted (map snd (events ?st'))"
    unfolding ev using old(1) le by (simp add: sorted_append)
  moreover have "\<forall>e\<in>set (events ?st'). snd e \<le> fit (best_ever ?st')"
    unfolding ev using le by simp
  ultimately show ?thesis
    using s(2,3) by (simp add: engine_invariant_def)
qed

lemma evolve_invariant:
  "engine_invariant fit st \<Longrightarrow> engine_invariant fit (evolve params fit draws n st)"
  by (induction n arbitrary: st) (simp_all add: step_invariant)

lemma evolve_Suc_end:
  "evolve params fit draws (Suc n) st =
     generation_step params fit (draws (generations_completed (evolve params fit draws n st)))
       (evolve params fit draws n st)"
proof (induction n arbitrary: st)
  case 0
  then show ?case by simp
next
  case (Suc n)
  have "evolve params fit draws (Suc (Suc n)) st =
        evolve params fit draws (Suc n)
          (generation_step params fit (draws (generations_completed st)) st)"
    by simp
  also note Suc [of "generation_step params fit (draws (generations_completed st)) st"]
  finally show ?case by simp
qed

lemma evolve_counts:
  "length (events (evolve params fit draws n st)) = length (events st) + n"
  "generations_completed (evolve params fit draws n st) = generations_completed st + n"
  by (induction n arbitrary: st) (simp_all add: step_fields)

lemma evolve_population_size:
  "length (population st) = sol_per_pop params \<Longrightarrow> 0 < sol_per_pop params \<Longrightarrow>
   length (population (evolve params fit draws n st)) = sol_per_pop params"
proof (induction n arbitrary: st)
  case 0
  then show ?case by simp
next
  case (Suc n)
  have "length (population (generation_step params fit (draws (generations_completed st)) st))
          = sol_per_pop params"
    using step_best(6) [where st = st and params = params and fit = fit
        and draw = "draws (generations_completed st)"] Suc.prems(2)
    by simp
  from Suc.IH [OF this Suc.prems(2)] show ?case by simp
qed

lemma init_invariant:
  assumes "engine_init params fit initial_population = Inr st0"
  shows "engine_invariant fit st0"
    and "length (population st0) = sol_per_pop params"
    and "0 < sol_per_pop params"
    and "events st0 = []"
    and "population st0 = initial_population"
    and "current_best_fitness fit initial_population = fit (best_ever st0)"
proof -
  from assms have c: "sol_per_pop params \<noteq> 0" "length initial_population = sol_per_pop params"
    and st0: "st0 = \<lparr>population = initial_population,
                best_ever = best_of fit (hd initial_population) (tl initial_population),
                generations_completed = 0, events = []\<rparr>"
    by (auto simp: engine_init_def split: if_splits)
  from c have ne: "initial_population \<noteq> []" by auto
  then have pop: "hd initial_population # tl initial_population = initial_population" by simp
  have a: "best_ever st0 \<in> set (population st0)"
    using best_of_in [of fit "hd initial_population" "tl initial_population"]
    by (simp add: st0 pop)
  have b: "\<forall>c\<in>set (population st0). fit c \<le> fit (best_ever st0)"
    using best_of_ge [of _ "hd initial_population" "tl initial_population" fit]
    by (simp add: st0 pop)
  show "engine_invariant fit st0"
    using a b by (simp add: engine_invariant_def st0)
  show "length (population st0) = sol_per_pop params" using c by (simp add: st0)
  show "0 < sol_per_pop params" using c by simp
  show "events st0 = []" by (simp add: st0)
  show "population st0 = initial_population" by (simp add: st0)
  show "current_best_fitness fit initial_population = fit (best_ever st0)"
    by (simp add: current_best_fitness_def st0)
qed

text \<open>
  C6. In the engine as the specification describes it, for every configuration the
  engine accepts, every initial population and every sequence of random draws, the best
  fitness of the population after generation \<open>n + 1\<close> is at least the best fitness after
  generation \<open>n\<close>, the best chromosome observed up to generation \<open>n\<close> is a member of
  the population of generation \<open>n + 1\<close>, and the run ends with one reported best fitness
  per generation, in non-decreasing order.
\<close>

theorem best_fitness_nondecreasing:
  assumes init: "engine_init params fit initial_population = Inr st0"
  shows "current_best_fitness fit (population (evolve params fit draws n st0))
           \<le> current_best_fitness fit (population (evolve params fit draws (Suc n) st0))
       \<and> best_ever (evolve params fit draws n st0)
           \<in> set (population (evolve params fit draws (Suc n) st0))
       \<and> (\<exists>st. engine_run params fit initial_population draws = Inr st
              \<and> sorted (map snd (events st))
              \<and> length (events st) = generations params
              \<and> length (population st) = sol_per_pop params
              \<and> best_ever st \<in> set (population st))"
proof -
  note i = init_invariant [OF init]
  let ?sn = "evolve params fit draws n st0"
  let ?draw = "draws (generations_completed ?sn)"
  have next_state: "evolve params fit draws (Suc n) st0 = generation_step params fit ?draw ?sn"
    by (rule evolve_Suc_end)
  have inv_n: "engine_invariant fit ?sn"
    by (rule evolve_invariant [OF i(1)])
  then have cur: "current_best_fitness fit (population ?sn) = fit (best_ever ?sn)"
    by (intro current_best_is_max) (simp_all add: engine_invariant_def)
  note s = step_best [where st = ?sn and params = params and fit = fit and draw = ?draw]
  have mono: "current_best_fitness fit (population ?sn)
                \<le> current_best_fitness fit (population (evolve params fit draws (Suc n) st0))"
    unfolding next_state cur s(5) by (rule s(4))
  have kept: "best_ever ?sn \<in> set (population (evolve params fit draws (Suc n) st0))"
    unfolding next_state by (rule s(1))
  let ?st = "evolve params fit draws (generations params) st0"
  have run: "engine_run params fit initial_population draws = Inr ?st"
    by (simp add: engine_run_def init)
  have inv: "engine_invariant fit ?st"
    by (rule evolve_invariant [OF i(1)])
  have "sorted (map snd (events ?st))" "best_ever ?st \<in> set (population ?st)"
    using inv by (simp_all add: engine_invariant_def)
  moreover have "length (events ?st) = generations params"
    by (simp add: evolve_counts(1) i(4))
  moreover have "length (population ?st) = sol_per_pop params"
    by (rule evolve_population_size [OF i(2,3)])
  ultimately show ?thesis
    using mono kept run by blast
qed

theorem best_fitness_nondecreasing_witness:
  "current_best_fitness example_fit
       (population (evolve example_params example_fit example_draws 0 example_st0))
     \<le> current_best_fitness example_fit
       (population (evolve example_params example_fit example_draws (Suc 0) example_st0))
   \<and> (\<exists>st. engine_run example_params example_fit example_population example_draws = Inr st
          \<and> sorted (map snd (events st))
          \<and> length (events st) = 2)"
proof -
  have init: "engine_init example_params example_fit example_population = Inr example_st0"
    by code_simp
  have g: "generations example_params = 2"
    by (simp add: example_params_def)
  from best_fitness_nondecreasing [OF init, of example_draws 0] g show ?thesis
    by auto
qed

end
